theory Spec2Isabelle
  imports Complex_Main "HOL-Library.Sublist"
begin

section \<open>Shared vocabulary\<close>

text \<open>
  JavaScript errors are values: \<open>JsError m\<close> is \<^verbatim>\<open>new Error(m)\<close>, and \<open>TypeError\<close> is what the
  runtime raises when a property of \<^verbatim>\<open>undefined\<close> is read (a \<^verbatim>\<open>Map.get(...)!\<close> that found
  nothing). A value that may be \<^verbatim>\<open>undefined\<close> is an \<open>option\<close>.
\<close>

datatype error = TypeError | JsError string

text \<open>\<^verbatim>\<open>xs[i]\<close>: \<^verbatim>\<open>undefined\<close> out of range.\<close>

definition js_nth :: "'a list \<Rightarrow> nat \<Rightarrow> 'a option" where
  "js_nth xs i = (if i < length xs then Some (xs ! i) else None)"

text \<open>\<^verbatim>\<open>xs.indexOf(x)\<close>: the first position of \<open>x\<close>, \<open>None\<close> for \<^verbatim>\<open>-1\<close>.\<close>

fun indexOf :: "'a list \<Rightarrow> 'a \<Rightarrow> nat option" where
  "indexOf [] x = None"
| "indexOf (y # ys) x = (if y = x then Some 0 else map_option Suc (indexOf ys x))"

section \<open>ApiKeyRotation (services/apiKeyRotation)\<close>

record KeyStatus =
  index :: nat
  failedAt :: "int option"
  failureCount :: int

record ApiKeyRotation =
  keys :: "string list"
  currentIndex :: nat
  keyStatuses :: "nat \<rightharpoonup> KeyStatus"

definition COOLDOWN_MS :: int where
  "COOLDOWN_MS = 60000"

definition MAX_FAILURES :: int where
  "MAX_FAILURES = 3"

subsection \<open>Constructor\<close>

datatype apiKeys_arg = KeyString string | KeyArray "string list"

text \<open>\<^verbatim>\<open>s.split(',')\<close>: always at least one field, the empty string splits into one empty field.\<close>

fun split_comma :: "string \<Rightarrow> string list" where
  "split_comma [] = [[]]"
| "split_comma (c # cs) =
     (if c = CHR '','' then [] # split_comma cs
      else (case split_comma cs of
              [] \<Rightarrow> [[c]]
            | w # ws \<Rightarrow> (c # w) # ws))"

text \<open>
  \<^verbatim>\<open>key.trim()\<close> on the white space and line terminators of the ASCII range (tab, line feed,
  vertical tab, form feed, carriage return, space); characters are bytes here.
\<close>

definition is_space :: "char \<Rightarrow> bool" where
  "is_space c = (c \<in> set [CHR 0x09, CHR 0x0A, CHR 0x0B, CHR 0x0C, CHR 0x0D, CHR 0x20])"

definition trim :: "string \<Rightarrow> string" where
  "trim s = rev (dropWhile is_space (rev (dropWhile is_space s)))"

definition initial_status :: "nat \<Rightarrow> KeyStatus" where
  "initial_status i = \<lparr>index = i, failedAt = None, failureCount = 0\<rparr>"

definition new_ApiKeyRotation :: "apiKeys_arg \<Rightarrow> ApiKeyRotation" where
  "new_ApiKeyRotation apiKeys =
     (let parsed = (case apiKeys of
                      KeyString str \<Rightarrow> filter (\<lambda>key. length key > 0) (map trim (split_comma str))
                    | KeyArray arr \<Rightarrow> arr);
          ks = (if length parsed = 0 then [''NO_API_KEY_PROVIDED''] else parsed)
      in \<lparr>keys = ks,
          currentIndex = 0,
          keyStatuses = fold (\<lambda>i m. m(i \<mapsto> initial_status i)) [0..<length ks] Map.empty\<rparr>)"

subsection \<open>resetKey, markKeyFailed\<close>

text \<open>A slot is a position of the pool; a number that is no position finds no status, as a
  position beyond the pool does.\<close>

definition resetKey :: "ApiKeyRotation \<Rightarrow> nat \<Rightarrow> ApiKeyRotation" where
  "resetKey s i =
     (case keyStatuses s i of
        None \<Rightarrow> s
      | Some status \<Rightarrow>
          s\<lparr>keyStatuses := (keyStatuses s)(i \<mapsto> status\<lparr>failedAt := None, failureCount := 0\<rparr>)\<rparr>)"

definition advance :: "ApiKeyRotation \<Rightarrow> ApiKeyRotation" where
  "advance s = s\<lparr>currentIndex := (currentIndex s + 1) mod length (keys s)\<rparr>"

text \<open>The third argument is the reading of \<^verbatim>\<open>Date.now()\<close>.\<close>

definition markKeyFailed :: "ApiKeyRotation \<Rightarrow> string \<Rightarrow> int \<Rightarrow> error + ApiKeyRotation" where
  "markKeyFailed s key now =
     (case indexOf (keys s) key of
        None \<Rightarrow> Inr s
      | Some i \<Rightarrow>
          (case keyStatuses s i of
             None \<Rightarrow> Inl TypeError
           | Some status \<Rightarrow>
               let s1 = s\<lparr>keyStatuses := (keyStatuses s)
                          (i \<mapsto> status\<lparr>failureCount := failureCount status + 1, failedAt := Some now\<rparr>)\<rparr>
               in Inr (if currentIndex s1 = i then advance s1 else s1)))"

subsection \<open>getNextKey\<close>

text \<open>\<^verbatim>\<open>if (status.failedAt)\<close>: a number is truthy unless it is 0; \<^verbatim>\<open>undefined\<close> is falsy.\<close>

definition hasFailedAt :: "KeyStatus \<Rightarrow> bool" where
  "hasFailedAt status = (case failedAt status of None \<Rightarrow> False | Some t \<Rightarrow> t \<noteq> 0)"

definition inCooldown :: "int \<Rightarrow> KeyStatus \<Rightarrow> bool" where
  "inCooldown now status =
     (case failedAt status of None \<Rightarrow> False | Some t \<Rightarrow> t \<noteq> 0 \<and> now - t < COOLDOWN_MS)"

text \<open>
  The \<^verbatim>\<open>while (attempts < this.keys.length)\<close> loop; \<open>now\<close> is the reading of \<^verbatim>\<open>Date.now()\<close>
  during the call, one reading for the whole call. It returns the index it selected, or \<open>None\<close>
  when it ran out of attempts. \<^verbatim>\<open>status\<close> is the object stored in the map, so after
  \<^verbatim>\<open>this.resetKey(this.currentIndex)\<close> the test of \<^verbatim>\<open>status.failureCount\<close> reads the reset object:
  the model reads it back from the updated map.
\<close>

function getNextKey_loop :: "int \<Rightarrow> ApiKeyRotation \<Rightarrow> nat \<Rightarrow> error + (nat option \<times> ApiKeyRotation)" where
  "getNextKey_loop now s attempts =
     (if attempts < length (keys s) then
        (case keyStatuses s (currentIndex s) of
           None \<Rightarrow> Inl TypeError
         | Some status \<Rightarrow>
             if inCooldown now status then getNextKey_loop now (advance s) (attempts + 1)
             else
               (let s1 = (if hasFailedAt status then resetKey s (currentIndex s) else s) in
                case keyStatuses s1 (currentIndex s1) of
                  None \<Rightarrow> Inl TypeError
                | Some status1 \<Rightarrow>
                    if failureCount status1 \<ge> MAX_FAILURES
                    then getNextKey_loop now (advance s1) (attempts + 1)
                    else Inr (Some (currentIndex s1), advance s1)))
      else Inr (None, s))"
  by pat_completeness auto
termination
  by (relation "measure (\<lambda>(now, s, attempts). length (keys s) - attempts)")
     (auto simp: advance_def resetKey_def split: option.splits)

declare getNextKey_loop.simps [simp del]

definition getNextKey :: "ApiKeyRotation \<Rightarrow> int \<Rightarrow> error + (string option \<times> ApiKeyRotation)" where
  "getNextKey s now =
     (let startIndex = currentIndex s in
      case getNextKey_loop now s 0 of
        Inl e \<Rightarrow> Inl e
      | Inr (Some i, s') \<Rightarrow> Inr (js_nth (keys s') i, s')
      | Inr (None, s') \<Rightarrow> Inr (js_nth (keys s') startIndex, s'))"

text \<open>Several calls in a row, one clock reading for each.\<close>

fun getNextKeys :: "ApiKeyRotation \<Rightarrow> int list \<Rightarrow> error + (string option list \<times> ApiKeyRotation)" where
  "getNextKeys s [] = Inr ([], s)"
| "getNextKeys s (now # ts) =
     (case getNextKey s now of
        Inl e \<Rightarrow> Inl e
      | Inr (k, s1) \<Rightarrow>
          (case getNextKeys s1 ts of
             Inl e \<Rightarrow> Inl e
           | Inr (ks, s2) \<Rightarrow> Inr (k # ks, s2)))"

text \<open>
  \<^verbatim>\<open>getAvailableKeyCount()\<close>. The source walks the entries of the status map, which the
  constructor keys by the positions of \<open>keys\<close>; the model walks those positions.
\<close>

definition countsAsAvailable :: "int \<Rightarrow> KeyStatus \<Rightarrow> bool" where
  "countsAsAvailable now status =
     (failureCount status < MAX_FAILURES \<and>
      (\<not> hasFailedAt status \<or>
       (case failedAt status of None \<Rightarrow> False | Some t \<Rightarrow> now - t \<ge> COOLDOWN_MS)))"

definition getAvailableKeyCount :: "ApiKeyRotation \<Rightarrow> int \<Rightarrow> nat" where
  "getAvailableKeyCount s now =
     length (filter (\<lambda>i. case keyStatuses s i of
                                None \<Rightarrow> False
                              | Some status \<Rightarrow> countsAsAvailable now status)
               [0..<length (keys s)])"

subsection \<open>Well-formed pools and one iteration of the scan\<close>

definition wf :: "ApiKeyRotation \<Rightarrow> bool" where
  "wf s = (currentIndex s < length (keys s) \<and> (\<forall>i < length (keys s). keyStatuses s i \<noteq> None))"

text \<open>A candidate the scan passes over: inside its cooldown, or at the failure limit with no
  failure time to expire.\<close>

definition skipped :: "int \<Rightarrow> KeyStatus \<Rightarrow> bool" where
  "skipped now status =
     (inCooldown now status \<or> (\<not> hasFailedAt status \<and> failureCount status \<ge> MAX_FAILURES))"

text \<open>What one iteration of the loop does with the candidate under the cursor (a proof device:
  \<open>loop_unfold\<close> below shows that the loop is this, iterated).\<close>

datatype probe = Missing | Skip ApiKeyRotation | Select ApiKeyRotation

definition probe :: "int \<Rightarrow> ApiKeyRotation \<Rightarrow> probe" where
  "probe now s =
     (case keyStatuses s (currentIndex s) of
        None \<Rightarrow> Missing
      | Some status \<Rightarrow>
          if inCooldown now status then Skip s
          else if hasFailedAt status then Select (resetKey s (currentIndex s))
          else if failureCount status \<ge> MAX_FAILURES then Skip s
          else Select s)"

subsection \<open>Reachable pools\<close>

text \<open>The public operations of a pool, each with the clock reading it sees, and the pools
  that a constructor call followed by such operations can produce.\<close>

datatype pool_op = GetNextKey int | MarkKeyFailed string int | ResetKey nat

definition apply_op :: "ApiKeyRotation \<Rightarrow> pool_op \<Rightarrow> error + ApiKeyRotation" where
  "apply_op s op =
     (case op of
        GetNextKey now \<Rightarrow> (case getNextKey s now of Inl e \<Rightarrow> Inl e | Inr (k, s') \<Rightarrow> Inr s')
      | MarkKeyFailed key now \<Rightarrow> markKeyFailed s key now
      | ResetKey i \<Rightarrow> Inr (resetKey s i))"

inductive reachable :: "ApiKeyRotation \<Rightarrow> bool" where
  constructed: "reachable (new_ApiKeyRotation apiKeys)"
| operated: "reachable s \<Longrightarrow> apply_op s op = Inr s' \<Longrightarrow> reachable s'"

section \<open>Messages, configuration, chunks (types)\<close>

datatype Role = User | Model

record Attachment =
  mimeType :: string
  data :: string

datatype WebSource = WebSource (uri: string) (title: string)

record GroundingMetadata =
  groundingChunks :: "WebSource option list"

record Message =
  msg_id :: string
  role :: Role
  content :: string
  timestamp :: int
  isError :: "bool option"
  attachment :: "Attachment option"
  groundingMetadata :: "GroundingMetadata option"

datatype AIProvider = GEMINI | GROQ

record ModelConfig =
  model :: string
  temperature :: real
  topK :: real
  topP :: real
  maxTokens :: "real option"
  thinkingBudget :: real
  systemInstruction :: "string option"
  useSearch :: "bool option"
  provider :: "AIProvider option"

text \<open>The object a stream yields: \<^verbatim>\<open>{ text, grounding? }\<close>.\<close>

record Chunk =
  chunk_text :: string
  grounding :: "GroundingMetadata option"

text \<open>\<^verbatim>\<open>x || d\<close> on an optional string: \<^verbatim>\<open>undefined\<close> and the empty string are falsy.\<close>

definition or_else :: "string option \<Rightarrow> string \<Rightarrow> string" where
  "or_else x d = (case x of None \<Rightarrow> d | Some v \<Rightarrow> if v = [] then d else v)"

section \<open>Provider adapters\<close>

subsection \<open>The underlying streaming call\<close>

text \<open>
  One invocation of the SDK's streaming call: which attempt of the retry loop made it, the
  credential of the client that made it, and the request. The backend answers with the raw
  chunks of a stream that ends, or with the raw chunks delivered before something was thrown.
  A thrown value is seen through \<^verbatim>\<open>error.message\<close> and \<^verbatim>\<open>error.toString()\<close>.
\<close>

record 'p call =
  attempt :: nat
  credential :: "string option"
  request :: 'p

datatype thrown = Thrown (message: "string option") (rendered: string)

datatype 'r response = Stream "'r list" | Broken "'r list" thrown

datatype outcome = Completed "Chunk list" | Raised "Chunk list" thrown

record ('p, 's) run =
  yielded :: "Chunk list"
  calls :: "'p call list"
  result :: "error + unit"
  final :: 's

record Service =
  keyRotation :: ApiKeyRotation
  currentKey :: "string option"

text \<open>\<^verbatim>\<open>s.includes(sub)\<close>.\<close>

fun str_includes :: "string \<Rightarrow> string \<Rightarrow> bool" where
  "str_includes [] sub = (sub = [])"
| "str_includes (c # cs) sub = (prefix sub (c # cs) \<or> str_includes cs sub)"

definition errorMessage_of :: "thrown \<Rightarrow> string" where
  "errorMessage_of e = or_else (message e) (rendered e)"

definition isRateLimitError :: "string \<Rightarrow> bool" where
  "isRateLimitError errorMessage =
     (str_includes errorMessage ''429'' \<or>
      str_includes errorMessage ''quota'' \<or>
      str_includes errorMessage ''rate limit'' \<or>
      str_includes errorMessage ''RESOURCE_EXHAUSTED'')"

definition MAX_RETRIES :: nat where
  "MAX_RETRIES = 3"

subsection \<open>The retry loop of streamMessage\<close>

text \<open>
  \<^verbatim>\<open>keyRotation.markKeyFailed(this.currentKey); this.reinitializeWithNewKey()\<close>, with the two
  clock readings they see. An \<^verbatim>\<open>undefined\<close> current key is not in the pool, so marking it
  does nothing.
\<close>

definition rotateKey :: "'a Service_scheme \<Rightarrow> int \<Rightarrow> int \<Rightarrow> error + 'a Service_scheme" where
  "rotateKey svc t1 t2 =
     (case (case currentKey svc of
              None \<Rightarrow> Inr (keyRotation svc)
            | Some key \<Rightarrow> markKeyFailed (keyRotation svc) key t1) of
        Inl e \<Rightarrow> Inl e
      | Inr pool \<Rightarrow>
          (case getNextKey pool t2 of
             Inl e \<Rightarrow> Inl e
           | Inr (key', pool') \<Rightarrow> Inr (svc\<lparr>keyRotation := pool', currentKey := key'\<rparr>)))"

definition prepend :: "Chunk list \<Rightarrow> 'p call list \<Rightarrow> ('p, 's) run \<Rightarrow> ('p, 's) run" where
  "prepend cs invs r = r\<lparr>yielded := cs @ yielded r, calls := invs @ calls r\<rparr>"

text \<open>
  The three adapters share the \<^verbatim>\<open>while (retryCount < MAX_RETRIES) { try {...} catch {...} }\<close>
  loop and its \<^verbatim>\<open>catch\<close> block word for word, up to the provider's name in the last-resort
  message (\<open>failure\<close>). \<open>body\<close> is the adapter's \<^verbatim>\<open>try\<close> block: from the service and the retry
  count to the service after it, the underlying calls it made and how it ended.
  \<open>clock\<close> is the sequence of \<^verbatim>\<open>Date.now()\<close> readings of the \<^verbatim>\<open>catch\<close> blocks. A \<^verbatim>\<open>TypeError\<close>
  raised inside the \<^verbatim>\<open>catch\<close> block leaves the generator.
\<close>

function retry_loop ::
  "string \<Rightarrow> ('s Service_scheme \<Rightarrow> nat \<Rightarrow> 's Service_scheme \<times> 'p call list \<times> outcome) \<Rightarrow>
   (nat \<Rightarrow> int) \<Rightarrow> 's Service_scheme \<Rightarrow> nat \<Rightarrow> ('p, 's Service_scheme) run" where
  "retry_loop failure body clock svc retryCount =
     (if retryCount < MAX_RETRIES then
        (case body svc retryCount of
           (svc1, invs, Completed cs) \<Rightarrow>
             \<lparr>yielded = cs, calls = invs, result = Inr (), final = svc1\<rparr>
         | (svc1, invs, Raised cs err) \<Rightarrow>
             (let errorMessage = errorMessage_of err in
              if isRateLimitError errorMessage \<and> retryCount < MAX_RETRIES - 1 then
                (case rotateKey svc1 (clock (2 * retryCount)) (clock (2 * retryCount + 1)) of
                   Inl e \<Rightarrow> \<lparr>yielded = cs, calls = invs, result = Inl e, final = svc1\<rparr>
                 | Inr svc2 \<Rightarrow> prepend cs invs (retry_loop failure body clock svc2 (retryCount + 1)))
              else
                \<lparr>yielded = cs, calls = invs,
                 result = Inl (JsError (or_else (Some errorMessage) failure)), final = svc1\<rparr>))
      else
        \<lparr>yielded = [], calls = [],
         result = Inl (JsError ''Failed to generate response after maximum retries''),
         final = svc\<rparr>)"
  by pat_completeness auto
termination
  by (relation "measure (\<lambda>(failure, body, clock, svc, retryCount). MAX_RETRIES - retryCount)") auto

declare retry_loop.simps [simp del]

subsection \<open>GroqService and OpenRouterService\<close>

text \<open>The body of \<^verbatim>\<open>chat.completions.create\<close>; roles on the wire are the strings of the source.\<close>

datatype ChatMessage = ChatMessage (wire_role: string) (wire_content: string)

record CompletionRequest =
  req_model :: string
  req_messages :: "ChatMessage list"
  req_temperature :: real
  req_top_p :: real
  req_stream :: bool
  req_max_tokens :: nat

definition toChatMessage :: "Message \<Rightarrow> ChatMessage" where
  "toChatMessage msg = ChatMessage (if role msg = Model then ''assistant'' else ''user'') (content msg)"

definition GroqService_request :: "Message \<Rightarrow> Message list \<Rightarrow> ModelConfig \<Rightarrow> CompletionRequest" where
  "GroqService_request lastMessage history config =
     (let historyWithoutLast = butlast history;
          messages = map toChatMessage historyWithoutLast @ [ChatMessage ''user'' (content lastMessage)]
      in \<lparr>req_model = model config,
          req_messages =
            ChatMessage ''system'' (or_else (systemInstruction config) ''You are a helpful AI assistant.'')
              # messages,
          req_temperature = temperature config,
          req_top_p = topP config,
          req_stream = True,
          req_max_tokens = 8000\<rparr>)"

definition OpenRouterService_request :: "Message \<Rightarrow> Message list \<Rightarrow> ModelConfig \<Rightarrow> CompletionRequest" where
  "OpenRouterService_request lastMessage history config =
     (let historyWithoutLast = butlast history;
          messages = map toChatMessage historyWithoutLast @ [ChatMessage ''user'' (content lastMessage)]
      in \<lparr>req_model = model config,
          req_messages =
            ChatMessage ''system'' (or_else (systemInstruction config) ''You are a helpful AI assistant.'')
              # messages,
          req_temperature = temperature config,
          req_top_p = topP config,
          req_stream = True,
          req_max_tokens = 1000\<rparr>)"

text \<open>A raw chunk is \<^verbatim>\<open>chunk.choices[0]?.delta?.content\<close>; only a truthy one is yielded.\<close>

definition delta_chunks :: "string option list \<Rightarrow> Chunk list" where
  "delta_chunks raw =
     concat (map (\<lambda>c. case c of
                         None \<Rightarrow> []
                       | Some txt \<Rightarrow> if txt = [] then [] else [\<lparr>chunk_text = txt, grounding = None\<rparr>]) raw)"

definition completion_try ::
  "(CompletionRequest call \<Rightarrow> string option response) \<Rightarrow> CompletionRequest \<Rightarrow>
   's Service_scheme \<Rightarrow> nat \<Rightarrow> 's Service_scheme \<times> CompletionRequest call list \<times> outcome" where
  "completion_try backend req svc retryCount =
     (let c = \<lparr>attempt = retryCount, credential = currentKey svc, request = req\<rparr>
      in (svc, [c],
          case backend c of
            Stream raw \<Rightarrow> Completed (delta_chunks raw)
          | Broken raw err \<Rightarrow> Raised (delta_chunks raw) err))"

definition GroqService_streamMessage ::
  "(CompletionRequest call \<Rightarrow> string option response) \<Rightarrow> (nat \<Rightarrow> int) \<Rightarrow> Service \<Rightarrow>
   Message \<Rightarrow> Message list \<Rightarrow> ModelConfig \<Rightarrow> (CompletionRequest, Service) run" where
  "GroqService_streamMessage backend clock svc lastMessage history config =
     retry_loop ''Failed to generate response from Groq''
       (completion_try backend (GroqService_request lastMessage history config)) clock svc 0"

definition OpenRouterService_streamMessage ::
  "(CompletionRequest call \<Rightarrow> string option response) \<Rightarrow> (nat \<Rightarrow> int) \<Rightarrow> Service \<Rightarrow>
   Message \<Rightarrow> Message list \<Rightarrow> ModelConfig \<Rightarrow> (CompletionRequest, Service) run" where
  "OpenRouterService_streamMessage backend clock svc lastMessage history config =
     retry_loop ''Failed to generate response from OpenRouter''
       (completion_try backend (OpenRouterService_request lastMessage history config)) clock svc 0"

subsection \<open>GeminiService\<close>

datatype Part = TextPart string | InlineData string string

datatype Content = Content Role "Part list"

datatype Tool = GoogleSearch

text \<open>The argument of \<^verbatim>\<open>ai.chats.create\<close>, its \<^verbatim>\<open>config\<close> flattened.\<close>

record ChatCreate =
  chat_model :: string
  chat_temperature :: real
  chat_topK :: real
  chat_topP :: real
  chat_systemInstruction :: string
  chat_thinkingBudget :: "real option"
  chat_tools :: "Tool list option"
  chat_history :: "Content list"

datatype MessagePayload = PlainText string | PartList "Part list"

text \<open>What reaches the backend: the chat the message is sent on, and the message.\<close>

record GeminiRequest =
  chat_created :: ChatCreate
  sent_message :: MessagePayload

record GeminiService = Service +
  chat :: "ChatCreate option"
  currentModel :: "string option"
  currentSearchEnabled :: bool

text \<open>\<^verbatim>\<open>[{ text: msg.content }]\<close>, with \<^verbatim>\<open>{ inlineData: {...} }\<close> pushed when there is an attachment.\<close>

definition message_parts :: "Message \<Rightarrow> Part list" where
  "message_parts msg =
     TextPart (content msg) #
       (case attachment msg of None \<Rightarrow> [] | Some a \<Rightarrow> [InlineData (mimeType a) (data a)])"

text \<open>\<open>defaultInstruction\<close> stands for the constant \<^verbatim>\<open>DEFAULT_SYSTEM_INSTRUCTION\<close>.\<close>

definition initChat ::
  "string \<Rightarrow> 'a GeminiService_scheme \<Rightarrow> ModelConfig \<Rightarrow> Message list \<Rightarrow> 'a GeminiService_scheme" where
  "initChat defaultInstruction svc config history =
     (let validHistory = map (\<lambda>msg. Content (role msg) (message_parts msg)) (butlast history);
          tools = (if useSearch config = Some True then [GoogleSearch] else []);
          created =
            \<lparr>chat_model = model config,
             chat_temperature = temperature config,
             chat_topK = topK config,
             chat_topP = topP config,
             chat_systemInstruction = or_else (systemInstruction config) defaultInstruction,
             chat_thinkingBudget =
               (if thinkingBudget config > 0 then Some (thinkingBudget config) else None),
             chat_tools = (if length tools > 0 then Some tools else None),
             chat_history = validHistory\<rparr>
      in svc\<lparr>chat := Some created,
             currentModel := Some (model config),
             currentSearchEnabled := (useSearch config = Some True)\<rparr>)"

record GenerateContentResponse =
  resp_text :: "string option"
  resp_grounding :: "GroundingMetadata option"

definition gemini_chunk :: "GenerateContentResponse \<Rightarrow> Chunk" where
  "gemini_chunk responseChunk =
     \<lparr>chunk_text = or_else (resp_text responseChunk) [], grounding = resp_grounding responseChunk\<rparr>"

definition GeminiService_request :: "string \<Rightarrow> Message \<Rightarrow> Message list \<Rightarrow> ModelConfig \<Rightarrow>
    'a GeminiService_scheme \<Rightarrow> 'a GeminiService_scheme \<times> GeminiRequest option" where
  "GeminiService_request defaultInstruction lastMessage history config svc =
     (let searchEnabled = (useSearch config = Some True);
          needsReinit = (chat svc = None \<or> currentModel svc \<noteq> Some (model config) \<or>
                         currentSearchEnabled svc \<noteq> searchEnabled \<or> True);
          svc1 = (if needsReinit then initChat defaultInstruction svc config history else svc)
      in case chat svc1 of
           None \<Rightarrow> (svc1, None)
         | Some created \<Rightarrow>
             (let parts = message_parts lastMessage;
                  messagePayload = (if length parts = 1 then PlainText (content lastMessage)
                                    else PartList parts)
              in (svc1, Some \<lparr>chat_created = created, sent_message = messagePayload\<rparr>)))"

definition GeminiService_try ::
  "string \<Rightarrow> (GeminiRequest call \<Rightarrow> GenerateContentResponse response) \<Rightarrow>
   Message \<Rightarrow> Message list \<Rightarrow> ModelConfig \<Rightarrow>
   'a GeminiService_scheme \<Rightarrow> nat \<Rightarrow> 'a GeminiService_scheme \<times> GeminiRequest call list \<times> outcome" where
  "GeminiService_try defaultInstruction backend lastMessage history config svc retryCount =
     (case GeminiService_request defaultInstruction lastMessage history config svc of
        (svc1, None) \<Rightarrow>
          (svc1, [], Raised [] (Thrown (Some ''Chat initialization failed'')
                                       ''Error: Chat initialization failed''))
      | (svc1, Some req) \<Rightarrow>
          (let c = \<lparr>attempt = retryCount, credential = currentKey svc1, request = req\<rparr>
           in (svc1, [c],
               case backend c of
                 Stream raw \<Rightarrow> Completed (map gemini_chunk raw)
               | Broken raw err \<Rightarrow> Raised (map gemini_chunk raw) err)))"

definition GeminiService_streamMessage ::
  "string \<Rightarrow> (GeminiRequest call \<Rightarrow> GenerateContentResponse response) \<Rightarrow> (nat \<Rightarrow> int) \<Rightarrow>
   GeminiService \<Rightarrow> Message \<Rightarrow> Message list \<Rightarrow> ModelConfig \<Rightarrow> (GeminiRequest, GeminiService) run" where
  "GeminiService_streamMessage defaultInstruction backend clock svc lastMessage history config =
     retry_loop ''Failed to generate response from Gemini''
       (GeminiService_try defaultInstruction backend lastMessage history config) clock svc 0"

section \<open>AIProviderFactory\<close>

text \<open>\<^verbatim>\<open>process.env\<close>, the two variables the factory reads.\<close>

record Env =
  GEMINI_API_KEY :: "string option"
  GROQ_API_KEY :: "string option"

definition truthy :: "string option \<Rightarrow> bool" where
  "truthy x = (case x of None \<Rightarrow> False | Some v \<Rightarrow> v \<noteq> [])"

fun isProviderAvailable :: "Env \<Rightarrow> AIProvider \<Rightarrow> bool" where
  "isProviderAvailable env GEMINI = truthy (GEMINI_API_KEY env)"
| "isProviderAvailable env GROQ = truthy (GROQ_API_KEY env)"

definition getAvailableProviders :: "Env \<Rightarrow> AIProvider list" where
  "getAvailableProviders env = filter (isProviderAvailable env) [GEMINI, GROQ]"

definition getFirstAvailableProvider :: "Env \<Rightarrow> AIProvider option" where
  "getFirstAvailableProvider env =
     (let available = getAvailableProviders env
      in if length available > 0 then Some (available ! 0) else None)"

text \<open>
  A registered service is its \<^verbatim>\<open>streamMessage\<close>, seen from the factory: from the arguments to
  the chunks it yields and how it ends. The factory calls each service at most once per
  request. The adapters read their \<^verbatim>\<open>config\<close> argument and never assign to it, so a service
  takes the configuration by value.
\<close>

type_synonym AIProviderService = "Message \<Rightarrow> Message list \<Rightarrow> ModelConfig \<Rightarrow> outcome"

definition providers :: "AIProviderService \<Rightarrow> AIProviderService \<Rightarrow> AIProvider \<rightharpoonup> AIProviderService" where
  "providers geminiService groqService = [GEMINI \<mapsto> geminiService, GROQ \<mapsto> groqService]"

fun provider_name :: "AIProvider \<Rightarrow> string" where
  "provider_name GEMINI = ''gemini''"
| "provider_name GROQ = ''groq''"

definition getProvider ::
  "AIProviderService \<Rightarrow> AIProviderService \<Rightarrow> AIProvider \<Rightarrow> error + AIProviderService" where
  "getProvider geminiService groqService p =
     (case providers geminiService groqService p of
        None \<Rightarrow> Inl (JsError (''Provider '' @ provider_name p @ '' not found''))
      | Some service \<Rightarrow> Inr service)"

text \<open>
  Configuration objects live in a store, addressed by position, so that the caller's object
  and the copy \<^verbatim>\<open>{ ...config }\<close> are different objects: \<open>alloc\<close> is the object literal, and an
  assignment to a field is an update at the address. Every field of a configuration is a
  primitive value, so the shallow copy shares nothing with the original.
\<close>

type_synonym store = "ModelConfig list"

definition alloc :: "store \<Rightarrow> ModelConfig \<Rightarrow> nat \<times> store" where
  "alloc h v = (length h, h @ [v])"

record TaggedChunk = Chunk +
  chunk_provider :: "AIProvider option"

text \<open>\<^verbatim>\<open>{ ...chunk, provider }\<close>\<close>

definition tag :: "AIProvider \<Rightarrow> Chunk \<Rightarrow> TaggedChunk" where
  "tag p c = \<lparr>chunk_text = chunk_text c, grounding = grounding c, chunk_provider = Some p\<rparr>"

text \<open>What a request did: the chunks it yielded, the services it invoked with the configuration
  each one saw, how it ended, and the store it left.\<close>

record fallback_run =
  out :: "TaggedChunk list"
  invoked :: "(AIProvider \<times> ModelConfig) list"
  ending :: "error + unit"
  store_after :: store

definition before :: "TaggedChunk list \<Rightarrow> (AIProvider \<times> ModelConfig) list \<Rightarrow> fallback_run \<Rightarrow> fallback_run" where
  "before cs invs r = r\<lparr>out := cs @ out r, invoked := invs @ invoked r\<rparr>"

text \<open>The \<^verbatim>\<open>for (const provider of availableProviders)\<close> loop and the \<^verbatim>\<open>throw\<close> after it.
  \<open>cref\<close> is the address of the caller's \<^verbatim>\<open>config\<close>.\<close>

fun fallback_loop ::
  "AIProviderService \<Rightarrow> AIProviderService \<Rightarrow> Message \<Rightarrow> Message list \<Rightarrow> nat \<Rightarrow> AIProvider \<Rightarrow>
   AIProvider list \<Rightarrow> store \<Rightarrow> fallback_run" where
  "fallback_loop gem grq lastMessage history cref primaryProvider [] h =
     \<lparr>out = [], invoked = [],
      ending = Inl (JsError ''All AI providers failed. Please check your API keys.''),
      store_after = h\<rparr>"
| "fallback_loop gem grq lastMessage history cref primaryProvider (p # ps) h =
     (if p = primaryProvider then fallback_loop gem grq lastMessage history cref primaryProvider ps h
      else
        (case getProvider gem grq p of
           Inl e \<Rightarrow> fallback_loop gem grq lastMessage history cref primaryProvider ps h
         | Inr service \<Rightarrow>
             (let (fallbackConfig, h1) = alloc h (h ! cref);
                  h2 = (if p = GROQ
                        then h1[fallbackConfig := (h1 ! fallbackConfig)\<lparr>model := ''llama-3.3-70b-versatile''\<rparr>]
                        else if p = GEMINI
                        then h1[fallbackConfig := (h1 ! fallbackConfig)\<lparr>model := ''gemini-2.5-flash''\<rparr>]
                        else h1)
              in case service lastMessage history (h2 ! fallbackConfig) of
                   Completed cs \<Rightarrow>
                     \<lparr>out = map (tag p) cs, invoked = [(p, h2 ! fallbackConfig)],
                      ending = Inr (), store_after = h2\<rparr>
                 | Raised cs err \<Rightarrow>
                     before (map (tag p) cs) [(p, h2 ! fallbackConfig)]
                       (fallback_loop gem grq lastMessage history cref primaryProvider ps h2))))"

definition streamMessageWithFallback ::
  "Env \<Rightarrow> AIProviderService \<Rightarrow> AIProviderService \<Rightarrow> Message \<Rightarrow> Message list \<Rightarrow> nat \<Rightarrow>
   store \<Rightarrow> fallback_run" where
  "streamMessageWithFallback env gem grq lastMessage history cref h =
     (let primaryProvider = (case provider (h ! cref) of None \<Rightarrow> GEMINI | Some p \<Rightarrow> p);
          availableProviders = getAvailableProviders env;
          fallback = fallback_loop gem grq lastMessage history cref primaryProvider availableProviders
      in if primaryProvider \<in> set availableProviders then
           (case getProvider gem grq primaryProvider of
              Inl e \<Rightarrow> fallback h
            | Inr service \<Rightarrow>
                (case service lastMessage history (h ! cref) of
                   Completed cs \<Rightarrow>
                     \<lparr>out = map (tag primaryProvider) cs, invoked = [(primaryProvider, h ! cref)],
                      ending = Inr (), store_after = h\<rparr>
                 | Raised cs err \<Rightarrow>
                     before (map (tag primaryProvider) cs) [(primaryProvider, h ! cref)] (fallback h)))
         else fallback h)"

section \<open>Vocabulary of the statements\<close>

text \<open>The service registered for a provider.\<close>

definition service_of :: "AIProviderService \<Rightarrow> AIProviderService \<Rightarrow> AIProvider \<Rightarrow> AIProviderService" where
  "service_of gem grq p = (case p of GEMINI \<Rightarrow> gem | GROQ \<Rightarrow> grq)"

text \<open>A pool on which no failure is recorded.\<close>

definition no_failures :: "ApiKeyRotation \<Rightarrow> bool" where
  "no_failures s =
     (\<forall>i < length (keys s). \<exists>st. keyStatuses s i = Some st \<and> failedAt st = None \<and> failureCount st = 0)"

text \<open>Running a list of operations, and reading a run: the failure count of a slot, the keys
  that further \<^verbatim>\<open>getNextKey()\<close> calls return.\<close>

fun run_ops :: "ApiKeyRotation \<Rightarrow> pool_op list \<Rightarrow> error + ApiKeyRotation" where
  "run_ops s [] = Inr s"
| "run_ops s (op # ops) = (case apply_op s op of Inl e \<Rightarrow> Inl e | Inr s' \<Rightarrow> run_ops s' ops)"

definition failureCount_of :: "error + ApiKeyRotation \<Rightarrow> nat \<Rightarrow> int option" where
  "failureCount_of r i = (case r of Inl e \<Rightarrow> None | Inr s \<Rightarrow> map_option failureCount (keyStatuses s i))"

definition available_count :: "error + ApiKeyRotation \<Rightarrow> int \<Rightarrow> nat option" where
  "available_count r now = (case r of Inl e \<Rightarrow> None | Inr s \<Rightarrow> Some (getAvailableKeyCount s now))"

definition keys_returned :: "error + ApiKeyRotation \<Rightarrow> int list \<Rightarrow> string option list option" where
  "keys_returned r ts =
     (case r of
        Inl e \<Rightarrow> None
      | Inr s \<Rightarrow> (case getNextKeys s ts of Inl e \<Rightarrow> None | Inr (ks, s') \<Rightarrow> Some ks))"

section \<open>Sample inputs\<close>

definition sample_config :: ModelConfig where
  "sample_config =
     \<lparr>model = ''gemini-2.5-pro'', temperature = 0.7, topK = 40, topP = 0.95, maxTokens = None,
      thinkingBudget = 0, systemInstruction = None, useSearch = None, provider = None\<rparr>"

definition sample_message :: "Role \<Rightarrow> string \<Rightarrow> Attachment option \<Rightarrow> Message" where
  "sample_message r txt att =
     \<lparr>msg_id = ''1'', role = r, content = txt, timestamp = 1700000000000, isError = None,
      attachment = att, groundingMetadata = None\<rparr>"

definition sample_chunk :: "string \<Rightarrow> Chunk" where
  "sample_chunk txt = \<lparr>chunk_text = txt, grounding = None\<rparr>"

definition sample_env :: Env where
  "sample_env = \<lparr>GEMINI_API_KEY = Some ''g1,g2'', GROQ_API_KEY = Some ''q1''\<rparr>"

definition failing_service :: "Chunk list \<Rightarrow> string \<Rightarrow> AIProviderService" where
  "failing_service cs msg = (\<lambda>lastMessage history config. Raised cs (Thrown (Some msg) (''Error: '' @ msg)))"

definition answering_service :: "string \<Rightarrow> Chunk list \<Rightarrow> AIProviderService" where
  "answering_service m cs =
     (\<lambda>lastMessage history config.
        if model config = m then Completed cs
        else Raised [] (Thrown (Some ''404 model not found'') ''Error: 404 model not found''))"

definition sample_gemini :: GeminiService where
  "sample_gemini =
     \<lparr>keyRotation = advance (new_ApiKeyRotation (KeyString ''k1,k2'')), currentKey = Some ''k1'',
      chat = None, currentModel = None, currentSearchEnabled = False\<rparr>"

text \<open>A service as its constructor leaves it, and backends that always fail the same way.\<close>

definition sample_groq :: Service where
  "sample_groq =
     \<lparr>keyRotation = advance (new_ApiKeyRotation (KeyString ''k1,k2'')), currentKey = Some ''k1''\<rparr>"

definition always_429 :: "'p call \<Rightarrow> 'r response" where
  "always_429 c = Broken [] (Thrown (Some ''429 Too Many Requests'') ''Error: 429 Too Many Requests'')"

definition always_401 :: "'p call \<Rightarrow> 'r response" where
  "always_401 c = Broken [] (Thrown (Some ''401 Unauthorized'') ''Error: 401 Unauthorized'')"

section \<open>Properties of the key pool\<close>

subsection \<open>Basic facts\<close>

lemma keys_advance [simp]: "keys (advance s) = keys s"
  by (simp add: advance_def)

lemma keyStatuses_advance [simp]: "keyStatuses (advance s) = keyStatuses s"
  by (simp add: advance_def)

lemma currentIndex_advance [simp]: "currentIndex (advance s) = (currentIndex s + 1) mod length (keys s)"
  by (simp add: advance_def)

lemma keys_resetKey [simp]: "keys (resetKey s i) = keys s"
  by (simp add: resetKey_def split: option.splits)

lemma currentIndex_resetKey [simp]: "currentIndex (resetKey s i) = currentIndex s"
  by (simp add: resetKey_def split: option.splits)

lemma keyStatuses_resetKey:
  "keyStatuses (resetKey s i) j =
     (if j = i then map_option (\<lambda>st. st\<lparr>failedAt := None, failureCount := 0\<rparr>) (keyStatuses s i)
      else keyStatuses s j)"
  by (simp add: resetKey_def split: option.splits)

lemma wf_advance: "wf s \<Longrightarrow> wf (advance s)"
proof -
  assume w: "wf s"
  then have "0 < length (keys s)" by (auto simp: wf_def)
  then have "(currentIndex s + 1) mod length (keys s) < length (keys s)" by simp
  with w show ?thesis by (simp add: wf_def)
qed

lemma wf_resetKey: "wf s \<Longrightarrow> wf (resetKey s i)"
  by (simp add: wf_def keyStatuses_resetKey)

subsection \<open>The scan, one candidate at a time\<close>

lemma loop_unfold:
  "getNextKey_loop now s a =
     (if a < length (keys s) then
        (case probe now s of
           Missing \<Rightarrow> Inl TypeError
         | Skip s1 \<Rightarrow> getNextKey_loop now (advance s1) (a + 1)
         | Select s1 \<Rightarrow> Inr (Some (currentIndex s1), advance s1))
      else Inr (None, s))"
  apply (subst getNextKey_loop.simps)
  apply (simp add: probe_def keyStatuses_resetKey MAX_FAILURES_def split: option.splits)
  done

lemma probe_Skip:
  "probe now s = Skip s1 \<Longrightarrow>
     s1 = s \<and> (\<exists>st. keyStatuses s (currentIndex s) = Some st \<and> skipped now st)"
  by (auto simp: probe_def skipped_def split: option.splits if_splits)

lemma probe_Select:
  "probe now s = Select s1 \<Longrightarrow>
     \<exists>st. keyStatuses s (currentIndex s) = Some st \<and> \<not> skipped now st \<and>
          s1 = (if hasFailedAt st then resetKey s (currentIndex s) else s)"
  by (auto simp: probe_def skipped_def split: option.splits if_splits)

lemma probe_wf: "wf s \<Longrightarrow> probe now s \<noteq> Missing"
  by (auto simp: probe_def wf_def split: option.splits)

lemma loop_skipped:
  "keyStatuses s i = Some st \<Longrightarrow> skipped now st \<Longrightarrow> getNextKey_loop now s a = Inr (r, s') \<Longrightarrow>
     r \<noteq> Some i \<and> keyStatuses s' i = Some st"
proof (induction "length (keys s) - a" arbitrary: s a)
  case 0
  then show ?case by (simp add: loop_unfold[of now s a])
next
  case (Suc n)
  from Suc.hyps(2) have lt: "a < length (keys s)" by simp
  show ?case
  proof (cases "probe now s")
    case Missing
    with Suc.prems lt show ?thesis by (simp add: loop_unfold[of now s a])
  next
    case (Skip s1)
    then have s1: "s1 = s" by (simp add: probe_Skip)
    from Suc.prems(3) lt Skip s1
    have run: "getNextKey_loop now (advance s) (a + 1) = Inr (r, s')"
      by (simp add: loop_unfold[of now s a])
    have "n = length (keys (advance s)) - (a + 1)" using Suc.hyps(2) by simp
    from Suc.hyps(1)[OF this _ Suc.prems(2) run] Suc.prems(1) show ?thesis by simp
  next
    case (Select s1)
    from probe_Select[OF Select] obtain st0 where
      st0: "keyStatuses s (currentIndex s) = Some st0" "\<not> skipped now st0"
      and s1: "s1 = (if hasFailedAt st0 then resetKey s (currentIndex s) else s)" by blast
    from st0 Suc.prems(1,2) have ne: "i \<noteq> currentIndex s" by auto
    from Suc.prems(3) lt Select have r: "r = Some (currentIndex s1)" "s' = advance s1"
      by (simp_all add: loop_unfold[of now s a])
    from s1 have "currentIndex s1 = currentIndex s" by simp
    moreover from s1 ne Suc.prems(1) have "keyStatuses s1 i = Some st"
      by (simp add: keyStatuses_resetKey)
    ultimately show ?thesis using r ne by simp
  qed
qed

lemma loop_wf:
  "wf s \<Longrightarrow> \<exists>r s'. getNextKey_loop now s a = Inr (r, s') \<and> wf s' \<and> keys s' = keys s \<and>
      (\<forall>i. r = Some i \<longrightarrow> i < length (keys s))"
proof (induction "length (keys s) - a" arbitrary: s a)
  case 0
  then show ?case by (simp add: loop_unfold[of now s a])
next
  case (Suc n)
  from Suc.hyps(2) have lt: "a < length (keys s)" by simp
  show ?case
  proof (cases "probe now s")
    case Missing
    with Suc.prems probe_wf show ?thesis by blast
  next
    case (Skip s1)
    then have s1: "s1 = s" by (simp add: probe_Skip)
    have "n = length (keys (advance s)) - (a + 1)" using Suc.hyps(2) by simp
    from Suc.hyps(1)[OF this wf_advance[OF Suc.prems]]
    obtain r s' where "getNextKey_loop now (advance s) (a + 1) = Inr (r, s')" "wf s'"
      "keys s' = keys s" "(\<forall>i. r = Some i \<longrightarrow> i < length (keys s))"
      by auto
    then show ?thesis using lt Skip s1 by (simp add: loop_unfold[of now s a])
  next
    case (Select s1)
    from probe_Select[OF Select] have "s1 = resetKey s (currentIndex s) \<or> s1 = s"
      by (auto split: if_splits)
    then have "wf s1" "keys s1 = keys s" "currentIndex s1 = currentIndex s"
      using Suc.prems by (auto simp: wf_resetKey)
    then show ?thesis using lt Select Suc.prems
      by (simp add: loop_unfold[of now s a] wf_advance) (simp add: wf_def)
  qed
qed

subsection \<open>Constructor, markKeyFailed, exhaustive scans\<close>

lemma fold_statuses:
  "fold (\<lambda>i m. m(i \<mapsto> f i)) [0..<n] m0 = (\<lambda>i. if i < n then Some (f i) else m0 i)"
proof (induction n)
  case 0
  show ?case by simp
next
  case (Suc n)
  have "fold (\<lambda>i m. m(i \<mapsto> f i)) [0..<Suc n] m0 =
          (fold (\<lambda>i m. m(i \<mapsto> f i)) [0..<n] m0)(n \<mapsto> f n)"
    by simp
  then show ?case by (simp only: Suc.IH) (auto simp: fun_eq_iff)
qed

lemma keyStatuses_new:
  "keyStatuses (new_ApiKeyRotation a) i =
     (if i < length (keys (new_ApiKeyRotation a)) then Some (initial_status i) else None)"
  by (simp add: new_ApiKeyRotation_def Let_def fold_statuses)

lemma currentIndex_new [simp]: "currentIndex (new_ApiKeyRotation a) = 0"
  by (simp add: new_ApiKeyRotation_def Let_def)

lemma keys_new_nonempty: "keys (new_ApiKeyRotation a) \<noteq> []"
  by (auto simp: new_ApiKeyRotation_def Let_def)

lemma wf_new: "wf (new_ApiKeyRotation a)"
  using keys_new_nonempty[of a] by (simp add: wf_def keyStatuses_new)

lemma indexOf_Some: "indexOf xs x = Some i \<Longrightarrow> i < length xs \<and> xs ! i = x"
  by (induction xs arbitrary: i) (auto split: if_splits)

lemma indexOf_None: "indexOf xs x = None \<longleftrightarrow> x \<notin> set xs"
  by (induction xs) auto

lemma indexOf_distinct: "distinct xs \<Longrightarrow> i < length xs \<Longrightarrow> indexOf xs (xs ! i) = Some i"
proof (induction xs arbitrary: i)
  case Nil
  then show ?case by simp
next
  case (Cons y ys)
  then show ?case by (cases i) auto
qed

lemma markKeyFailed_cases:
  assumes "wf s"
  shows "(key \<notin> set (keys s) \<and> markKeyFailed s key now = Inr s)
       \<or> (\<exists>i st s'. indexOf (keys s) key = Some i \<and> i < length (keys s) \<and> keys s ! i = key \<and>
             keyStatuses s i = Some st \<and> markKeyFailed s key now = Inr s' \<and> wf s' \<and>
             keys s' = keys s \<and>
             keyStatuses s' = (keyStatuses s)(i \<mapsto> st\<lparr>failureCount := failureCount st + 1, failedAt := Some now\<rparr>))"
proof (cases "indexOf (keys s) key")
  case None
  then have "key \<notin> set (keys s)" by (simp add: indexOf_None)
  with None show ?thesis by (simp add: markKeyFailed_def)
next
  case (Some i)
  then have i: "i < length (keys s)" "keys s ! i = key" by (simp_all add: indexOf_Some)
  with assms obtain st where st: "keyStatuses s i = Some st" by (auto simp: wf_def)
  let ?s1 = "s\<lparr>keyStatuses := (keyStatuses s)(i \<mapsto> st\<lparr>failureCount := failureCount st + 1, failedAt := Some now\<rparr>)\<rparr>"
  have w1: "wf ?s1" using assms by (simp add: wf_def)
  have "markKeyFailed s key now = Inr (if currentIndex ?s1 = i then advance ?s1 else ?s1)"
    using Some st by (simp add: markKeyFailed_def Let_def)
  moreover have "wf (if currentIndex ?s1 = i then advance ?s1 else ?s1)"
    using w1 wf_advance[OF w1] by simp
  ultimately show ?thesis using Some i st by auto
qed

lemma loop_None:
  "getNextKey_loop now s a = Inr (None, s') \<Longrightarrow> currentIndex s < length (keys s) \<Longrightarrow>
     keyStatuses s' = keyStatuses s \<and>
     (\<forall>m < length (keys s) - a.
        \<exists>st. keyStatuses s ((currentIndex s + m) mod length (keys s)) = Some st \<and> skipped now st)"
proof (induction "length (keys s) - a" arbitrary: s a)
  case 0
  then show ?case by (simp add: loop_unfold[of now s a])
next
  case (Suc n)
  from Suc.hyps(2) have lt: "a < length (keys s)" by simp
  show ?case
  proof (cases "probe now s")
    case Missing
    with Suc.prems lt show ?thesis by (simp add: loop_unfold[of now s a])
  next
    case (Select s1)
    with Suc.prems lt show ?thesis by (simp add: loop_unfold[of now s a])
  next
    case (Skip s1)
    from probe_Skip[OF Skip] obtain st0 where s1: "s1 = s"
      and st0: "keyStatuses s (currentIndex s) = Some st0" "skipped now st0" by blast
    from Suc.prems lt Skip s1
    have run: "getNextKey_loop now (advance s) (a + 1) = Inr (None, s')"
      by (simp add: loop_unfold[of now s a])
    have n: "n = length (keys (advance s)) - (a + 1)" using Suc.hyps(2) by simp
    from lt have "0 < length (keys s)" by (cases "keys s") simp_all
    then have c': "currentIndex (advance s) < length (keys (advance s))" by simp
    from Suc.hyps(1)[OF n run c']
    have ih: "keyStatuses s' = keyStatuses s"
      "\<And>m. m < length (keys s) - (a + 1) \<Longrightarrow>
         \<exists>st. keyStatuses s (((currentIndex s + 1) mod length (keys s) + m) mod length (keys s)) = Some st \<and> skipped now st"
      by simp_all
    have "\<exists>st. keyStatuses s ((currentIndex s + m) mod length (keys s)) = Some st \<and> skipped now st"
      if m: "m < length (keys s) - a" for m
    proof (cases m)
      case 0
      with st0 Suc.prems(2) show ?thesis by simp
    next
      case (Suc m')
      with m have "m' < length (keys s) - (a + 1)" by simp
      from ih(2)[OF this] show ?thesis
        using Suc by (simp add: mod_add_left_eq add.assoc)
    qed
    with ih(1) show ?thesis by simp
  qed
qed

lemma loop_status_change:
  "getNextKey_loop now s a = Inr (r, s') \<Longrightarrow> keyStatuses s i = Some st \<Longrightarrow>
     keyStatuses s' i = Some st \<or>
     (hasFailedAt st \<and> \<not> inCooldown now st \<and> r = Some i \<and>
      keyStatuses s' i = Some (st\<lparr>failedAt := None, failureCount := 0\<rparr>))"
proof (induction "length (keys s) - a" arbitrary: s a)
  case 0
  then show ?case by (simp add: loop_unfold[of now s a])
next
  case (Suc n)
  from Suc.hyps(2) have lt: "a < length (keys s)" by simp
  show ?case
  proof (cases "probe now s")
    case Missing
    with Suc.prems lt show ?thesis by (simp add: loop_unfold[of now s a])
  next
    case (Skip s1)
    then have s1: "s1 = s" by (simp add: probe_Skip)
    from Suc.prems(1) lt Skip s1
    have run: "getNextKey_loop now (advance s) (a + 1) = Inr (r, s')"
      by (simp add: loop_unfold[of now s a])
    have "n = length (keys (advance s)) - (a + 1)" using Suc.hyps(2) by simp
    from Suc.hyps(1)[OF this run] Suc.prems(2) show ?thesis by simp
  next
    case (Select s1)
    from probe_Select[OF Select] obtain st0 where
      st0: "keyStatuses s (currentIndex s) = Some st0" "\<not> skipped now st0"
      and s1: "s1 = (if hasFailedAt st0 then resetKey s (currentIndex s) else s)" by blast
    from Suc.prems(1) lt Select have r: "r = Some (currentIndex s1)" "s' = advance s1"
      by (simp_all add: loop_unfold[of now s a])
    show ?thesis
    proof (cases "i = currentIndex s")
      case True
      with st0 Suc.prems(2) have "st0 = st" by simp
      with st0 s1 r True Suc.prems(2) show ?thesis
        by (auto simp: keyStatuses_resetKey skipped_def)
    next
      case False
      with s1 r Suc.prems(2) show ?thesis by (simp add: keyStatuses_resetKey)
    qed
  qed
qed

lemma getNextKey_wf:
  assumes "wf s"
  shows "\<exists>r s'. getNextKey_loop now s 0 = Inr (r, s') \<and> wf s' \<and> keys s' = keys s \<and>
           (\<forall>i. r = Some i \<longrightarrow> i < length (keys s)) \<and>
           getNextKey s now =
             Inr (Some (keys s ! (case r of None \<Rightarrow> currentIndex s | Some i \<Rightarrow> i)), s')"
proof -
  from loop_wf[OF assms, of now 0] obtain r s' where
    l: "getNextKey_loop now s 0 = Inr (r, s')" "wf s'" "keys s' = keys s"
       "\<forall>i. r = Some i \<longrightarrow> i < length (keys s)" by blast
  moreover from assms have "currentIndex s < length (keys s)" by (simp add: wf_def)
  ultimately show ?thesis
    by (cases r) (auto simp: getNextKey_def js_nth_def Let_def)
qed

lemma all_indices_visited:
  assumes "c < n" "j < (n::nat)"
  shows "\<exists>m < n. (c + m) mod n = j"
proof (cases "c \<le> j")
  case True
  with assms show ?thesis by (intro exI[of _ "j - c"]) simp
next
  case False
  with assms have "(c + (n - c + j)) mod n = j" by (simp add: mod_if)
  moreover from False assms have "n - c + j < n" by simp
  ultimately show ?thesis by blast
qed

lemma loop_finds:
  assumes "wf s" "j < length (keys s)" "keyStatuses s j = Some st" "\<not> skipped now st"
  shows "\<exists>i s'. getNextKey_loop now s 0 = Inr (Some i, s')"
proof -
  from loop_wf[OF assms(1), of now 0] obtain r s' where
    l: "getNextKey_loop now s 0 = Inr (r, s')" by blast
  show ?thesis
  proof (cases r)
    case None
    from assms(1) have c: "currentIndex s < length (keys s)" by (simp add: wf_def)
    from all_indices_visited[OF c assms(2)] obtain m where
      m: "m < length (keys s)" "(currentIndex s + m) mod length (keys s) = j" by blast
    from loop_None[OF l[unfolded None] c] m assms(3,4) show ?thesis by auto
  next
    case (Some i)
    with l show ?thesis by blast
  qed
qed

subsection \<open>Pools without failures\<close>

lemma no_failures_new: "no_failures (new_ApiKeyRotation a)"
  by (simp add: no_failures_def keyStatuses_new initial_status_def)

lemma getNextKey_unfailed:
  assumes "keyStatuses s (currentIndex s) = Some st" "\<not> hasFailedAt st" "failureCount st < MAX_FAILURES"
      and "currentIndex s < length (keys s)"
  shows "getNextKey s now = Inr (Some (keys s ! currentIndex s), advance s)"
proof -
  have "probe now s = Select s"
    using assms(1-3) by (auto simp: probe_def inCooldown_def hasFailedAt_def split: option.splits)
  moreover from assms(4) have "keys s \<noteq> []" by auto
  ultimately have "getNextKey_loop now s 0 = Inr (Some (currentIndex s), advance s)"
    by (simp add: loop_unfold[of now s 0])
  then show ?thesis using assms(4) by (simp add: getNextKey_def js_nth_def)
qed

lemma getNextKeys_no_failures:
  assumes "no_failures s" "currentIndex s < length (keys s)"
  shows "getNextKeys s ts =
           Inr (map (\<lambda>m. Some (keys s ! ((currentIndex s + m) mod length (keys s)))) [0..<length ts],
                s\<lparr>currentIndex := (currentIndex s + length ts) mod length (keys s)\<rparr>)"
  using assms
proof (induction ts arbitrary: s)
  case Nil
  then show ?case by simp
next
  case (Cons t ts)
  from Cons.prems obtain st where st: "keyStatuses s (currentIndex s) = Some st"
    "failedAt st = None" "failureCount st = 0" by (auto simp: no_failures_def)
  have step: "getNextKey s t = Inr (Some (keys s ! currentIndex s), advance s)"
    by (rule getNextKey_unfailed[OF st(1)])
       (simp_all add: st Cons.prems(2) hasFailedAt_def MAX_FAILURES_def)
  have nf: "no_failures (advance s)" using Cons.prems(1) by (simp add: no_failures_def)
  from Cons.prems(2) have pos: "keys s \<noteq> []" by auto
  then have c: "currentIndex (advance s) < length (keys (advance s))" by simp
  have idx: "(Suc (currentIndex s) mod length (keys s) + m) mod length (keys s) =
             Suc (currentIndex s + m) mod length (keys s)" for m
    by (metis add_Suc mod_add_left_eq)
  have st_eq: "(advance s)\<lparr>currentIndex := x\<rparr> = s\<lparr>currentIndex := x\<rparr>" for x
    by (simp add: advance_def)
  show ?case
    using Cons.prems(2)
    by (simp add: step Cons.IH[OF nf c] idx st_eq map_upt_Suc del: upt_Suc)
qed

lemma trims: "trim ''k1'' = ''k1''" "trim '' k2'' = ''k2''" "trim ''k3'' = ''k3''"
  by (simp_all add: trim_def is_space_def)

lemma keys_sample: "keys (new_ApiKeyRotation (KeyString ''k1, k2,k3'')) = [''k1'', ''k2'', ''k3'']"
  by (simp add: new_ApiKeyRotation_def trims)

subsection \<open>Skipped keys, sequences of calls, reachable pools\<close>

lemma loop_None_all:
  assumes "wf s" "getNextKey_loop now s 0 = Inr (None, s')" "j < length (keys s)"
  shows "\<exists>st. keyStatuses s j = Some st \<and> skipped now st"
proof -
  from assms(1) have c: "currentIndex s < length (keys s)" by (simp add: wf_def)
  from all_indices_visited[OF c assms(3)] obtain m where
    m: "m < length (keys s)" "(currentIndex s + m) mod length (keys s) = j" by blast
  from loop_None[OF assms(2) c] m show ?thesis by auto
qed

lemma unfailed_not_skipped:
  "\<not> hasFailedAt st \<Longrightarrow> failureCount st < MAX_FAILURES \<Longrightarrow> \<not> skipped now st"
  by (auto simp: skipped_def inCooldown_def hasFailedAt_def split: option.splits)

lemma getNextKeys_in_keys:
  "wf s \<Longrightarrow> \<exists>ks s'. getNextKeys s ts = Inr (ks, s') \<and> length ks = length ts \<and>
      (\<forall>x \<in> set ks. \<exists>key \<in> set (keys s). x = Some key)"
proof (induction ts arbitrary: s)
  case Nil
  then show ?case by simp
next
  case (Cons t ts)
  from getNextKey_wf[OF Cons.prems, of t] obtain r s1 where
    l: "wf s1" "keys s1 = keys s" "\<forall>i. r = Some i \<longrightarrow> i < length (keys s)"
    and g: "getNextKey s t = Inr (Some (keys s ! (case r of None \<Rightarrow> currentIndex s | Some i \<Rightarrow> i)), s1)"
    by blast
  from Cons.prems have c: "currentIndex s < length (keys s)" by (simp add: wf_def)
  with l(3) have mem: "keys s ! (case r of None \<Rightarrow> currentIndex s | Some i \<Rightarrow> i) \<in> set (keys s)"
    by (cases r) simp_all
  from Cons.IH[OF l(1)] l(2) obtain ks s' where
    "getNextKeys s1 ts = Inr (ks, s')" "length ks = length ts"
    "\<forall>x \<in> set ks. \<exists>key \<in> set (keys s). x = Some key" by auto
  with g mem show ?case by auto
qed

lemma skipped_key_last_resort:
  assumes "wf s" and "distinct (keys s)" and "i < length (keys s)"
      and "keyStatuses s i = Some st" and "skipped now st"
  shows "\<exists>k s'. getNextKey s now = Inr (Some k, s') \<and> wf s' \<and> keys s' = keys s \<and>
           k \<in> set (keys s) \<and> keyStatuses s' i = Some st \<and>
           (k = keys s ! i \<longrightarrow>
              currentIndex s = i \<and>
              (\<forall>j < length (keys s). \<exists>stj. keyStatuses s j = Some stj \<and> skipped now stj))"
proof -
  from getNextKey_wf[OF assms(1), of now] obtain r s' where
    l: "getNextKey_loop now s 0 = Inr (r, s')" "wf s'" "keys s' = keys s"
       "\<forall>j. r = Some j \<longrightarrow> j < length (keys s)"
    and g: "getNextKey s now = Inr (Some (keys s ! (case r of None \<Rightarrow> currentIndex s | Some j \<Rightarrow> j)), s')"
    by blast
  let ?k = "keys s ! (case r of None \<Rightarrow> currentIndex s | Some j \<Rightarrow> j)"
  from loop_skipped[OF assms(4,5) l(1)] have ri: "r \<noteq> Some i" and keep: "keyStatuses s' i = Some st"
    by simp_all
  from assms(1) have c: "currentIndex s < length (keys s)" by (simp add: wf_def)
  from c l(4) have mem: "?k \<in> set (keys s)" by (cases r) simp_all
  have last_resort: "currentIndex s = i \<and>
            (\<forall>j < length (keys s). \<exists>stj. keyStatuses s j = Some stj \<and> skipped now stj)"
    if eq: "?k = keys s ! i"
  proof (cases r)
    case None
    with eq have "keys s ! currentIndex s = keys s ! i" by simp
    with assms(2,3) c have "currentIndex s = i" by (simp add: nth_eq_iff_index_eq)
    moreover from l(1) None have "getNextKey_loop now s 0 = Inr (None, s')" by simp
    from loop_None_all[OF assms(1) this]
    have "\<forall>j < length (keys s). \<exists>stj. keyStatuses s j = Some stj \<and> skipped now stj" by blast
    ultimately show ?thesis by blast
  next
    case (Some j)
    with l(4) have "j < length (keys s)" by simp
    moreover from Some eq have "keys s ! j = keys s ! i" by simp
    ultimately have "j = i" using assms(2,3) by (simp add: nth_eq_iff_index_eq)
    with Some ri show ?thesis by simp
  qed
  from g l(2,3) mem keep last_resort show ?thesis by blast
qed

lemma reset_not_skipped: "\<not> skipped now (st\<lparr>failedAt := None, failureCount := 0\<rparr>)"
  by (simp add: skipped_def inCooldown_def hasFailedAt_def MAX_FAILURES_def)

text \<open>Calls while the key at position i stays inside its cooldown.\<close>

lemma cooling_calls:
  assumes "wf s" and "distinct (keys s)" and "i < length (keys s)"
      and "keyStatuses s i = Some st" and "\<forall>t \<in> set ts. inCooldown t st"
  shows "\<exists>ks s'. getNextKeys s ts = Inr (ks, s') \<and> length ks = length ts \<and>
           (\<forall>n < length ts. ks ! n = Some (keys s ! i) \<longrightarrow>
              (\<exists>ksn sn. getNextKeys s (take n ts) = Inr (ksn, sn) \<and> keys sn = keys s \<and>
                 currentIndex sn = i \<and>
                 (\<forall>j < length (keys s). \<exists>stj. keyStatuses sn j = Some stj \<and> skipped (ts ! n) stj)))"
  using assms
proof (induction ts arbitrary: s)
  case Nil
  then show ?case by simp
next
  case (Cons t ts)
  from Cons.prems(5) have cool: "skipped t st" and rest: "\<forall>t \<in> set ts. inCooldown t st"
    by (simp_all add: skipped_def)
  from skipped_key_last_resort[OF Cons.prems(1-4) cool] obtain k s1 where
    g: "getNextKey s t = Inr (Some k, s1)" "wf s1" "keys s1 = keys s" "keyStatuses s1 i = Some st"
    and lr: "k = keys s ! i \<longrightarrow> currentIndex s = i \<and>
              (\<forall>j < length (keys s). \<exists>stj. keyStatuses s j = Some stj \<and> skipped t stj)"
    by blast
  from Cons.IH[OF g(2) _ _ g(4) rest] g(3) Cons.prems(2,3) obtain ks s' where
    ih: "getNextKeys s1 ts = Inr (ks, s')" "length ks = length ts"
        "\<forall>n < length ts. ks ! n = Some (keys s ! i) \<longrightarrow>
              (\<exists>ksn sn. getNextKeys s1 (take n ts) = Inr (ksn, sn) \<and> keys sn = keys s \<and>
                 currentIndex sn = i \<and>
                 (\<forall>j < length (keys s). \<exists>stj. keyStatuses sn j = Some stj \<and> skipped (ts ! n) stj))"
    by auto
  have run: "getNextKeys s (t # ts) = Inr (Some k # ks, s')" using g(1) ih(1) by simp
  have "\<exists>ksn sn. getNextKeys s (take n (t # ts)) = Inr (ksn, sn) \<and> keys sn = keys s \<and>
                 currentIndex sn = i \<and>
                 (\<forall>j < length (keys s). \<exists>stj. keyStatuses sn j = Some stj \<and> skipped ((t # ts) ! n) stj)"
    if n: "n < length (t # ts)" and hit: "(Some k # ks) ! n = Some (keys s ! i)" for n
  proof (cases n)
    case 0
    with hit lr show ?thesis by simp
  next
    case (Suc m)
    with n hit have "m < length ts" "ks ! m = Some (keys s ! i)" by simp_all
    with ih(3) obtain ksn sn where
      "getNextKeys s1 (take m ts) = Inr (ksn, sn)" "keys sn = keys s" "currentIndex sn = i"
      "\<forall>j < length (keys s). \<exists>stj. keyStatuses sn j = Some stj \<and> skipped (ts ! m) stj" by blast
    with g(1) Suc show ?thesis by simp
  qed
  with run ih(2) show ?case by simp
qed

text \<open>Calls while another key, at position j, is never skipped.\<close>

lemma cooling_calls_avoid:
  assumes "wf s" and "distinct (keys s)" and "i < length (keys s)"
      and "keyStatuses s i = Some st" and "\<forall>t \<in> set ts. inCooldown t st"
      and "j < length (keys s)" and "keyStatuses s j = Some stj"
      and "\<forall>t \<in> set ts. \<not> skipped t stj"
      and "getNextKeys s ts = Inr (ks, s')"
  shows "Some (keys s ! i) \<notin> set ks"
  using assms
proof (induction ts arbitrary: s ks stj)
  case Nil
  then show ?case by simp
next
  case (Cons t ts)
  from Cons.prems(5) have cool: "skipped t st" and rest: "\<forall>t \<in> set ts. inCooldown t st"
    by (simp_all add: skipped_def)
  from Cons.prems(8) have nj: "\<not> skipped t stj" and restj: "\<forall>t \<in> set ts. \<not> skipped t stj"
    by simp_all
  from skipped_key_last_resort[OF Cons.prems(1-4) cool] obtain k s1 where
    g: "getNextKey s t = Inr (Some k, s1)" "wf s1" "keys s1 = keys s" "keyStatuses s1 i = Some st"
    and lr: "k = keys s ! i \<longrightarrow>
              (\<forall>j < length (keys s). \<exists>stj. keyStatuses s j = Some stj \<and> skipped t stj)"
    by blast
  from lr Cons.prems(6,7) nj have kne: "k \<noteq> keys s ! i" by auto
  from getNextKey_wf[OF Cons.prems(1), of t] g(1) obtain r where
    l: "getNextKey_loop t s 0 = Inr (r, s1)" by auto
  from loop_status_change[OF l Cons.prems(7)]
  obtain stj' where sj: "keyStatuses s1 j = Some stj'" "\<forall>t \<in> set ts. \<not> skipped t stj'"
    using restj reset_not_skipped by auto
  from Cons.prems(9) g(1) obtain ks' where
    run: "getNextKeys s1 ts = Inr (ks', s')" "ks = Some k # ks'"
    by (auto split: sum.splits)
  from Cons.IH[OF g(2) _ _ g(4) rest _ sj run(1)] g(3) Cons.prems(2,3,6)
  have "Some (keys s ! i) \<notin> set ks'" by simp
  with run(2) kne show ?case by simp
qed

lemma apply_op_keys: "wf s \<Longrightarrow> apply_op s op = Inr s' \<Longrightarrow> wf s' \<and> keys s' = keys s"
proof (cases op)
  case (GetNextKey now)
  assume "wf s" "apply_op s op = Inr s'"
  with getNextKey_wf[of s now] GetNextKey show ?thesis by (auto simp: apply_op_def)
next
  case (MarkKeyFailed key now)
  assume "wf s" "apply_op s op = Inr s'"
  with markKeyFailed_cases[of s key now] MarkKeyFailed show ?thesis by (auto simp: apply_op_def)
next
  case (ResetKey i)
  assume "wf s" "apply_op s op = Inr s'"
  with ResetKey show ?thesis by (auto simp: apply_op_def wf_resetKey)
qed

lemma reachable_wf: "reachable s \<Longrightarrow> wf s"
  by (induction rule: reachable.induct) (auto simp: wf_new dest: apply_op_keys)

lemma apply_op_failureCount:
  assumes "wf s" and "apply_op s op = Inr s'" and "keyStatuses s i = Some st"
  shows "\<exists>st'. keyStatuses s' i = Some st' \<and>
           (failureCount st' = failureCount st
            \<or> (failureCount st' = failureCount st + 1 \<and> (\<exists>key now. op = MarkKeyFailed key now))
            \<or> (failureCount st' = 0 \<and>
                (op = ResetKey i \<or> (\<exists>now. op = GetNextKey now \<and> hasFailedAt st \<and> \<not> inCooldown now st))))"
proof (cases op)
  case (GetNextKey now)
  from getNextKey_wf[OF assms(1), of now] obtain r s1 where
    l: "getNextKey_loop now s 0 = Inr (r, s1)"
    and g: "getNextKey s now = Inr (Some (keys s ! (case r of None \<Rightarrow> currentIndex s | Some i \<Rightarrow> i)), s1)"
    by blast
  from g assms(2) GetNextKey have "s1 = s'" by (simp add: apply_op_def)
  with loop_status_change[OF l assms(3)] GetNextKey show ?thesis by auto
next
  case (MarkKeyFailed key now)
  with markKeyFailed_cases[OF assms(1), of key now] assms(2,3) show ?thesis
    by (auto simp: apply_op_def)
next
  case (ResetKey j)
  with assms(2,3) show ?thesis by (auto simp: apply_op_def keyStatuses_resetKey)
qed

lemma reachable_nonneg:
  "reachable s \<Longrightarrow> i < length (keys s) \<Longrightarrow> \<exists>st. keyStatuses s i = Some st \<and> 0 \<le> failureCount st"
proof (induction arbitrary: i rule: reachable.induct)
  case (constructed apiKeys)
  then show ?case by (simp add: keyStatuses_new initial_status_def)
next
  case (operated s op s')
  from reachable_wf[OF operated.hyps(1)] have w: "wf s" .
  from apply_op_keys[OF w operated.hyps(2)] operated.prems have "i < length (keys s)" by simp
  from operated.IH[OF this] obtain st where st: "keyStatuses s i = Some st" "0 \<le> failureCount st"
    by blast
  from apply_op_failureCount[OF w operated.hyps(2) st(1)] st(2) show ?case by auto
qed

section \<open>Properties of the adapters' payloads\<close>

lemma take_butlast_conv: "butlast xs = take (length xs - 1) xs"
  by (simp add: butlast_conv_take)

lemma GeminiService_request_eq:
  "GeminiService_request d lastMessage history config svc =
     (initChat d svc config history,
      Some \<lparr>chat_created = the (chat (initChat d svc config history)),
            sent_message = (case attachment lastMessage of
                              None \<Rightarrow> PlainText (content lastMessage)
                            | Some a \<Rightarrow> PartList [TextPart (content lastMessage), InlineData (mimeType a) (data a)])\<rparr>)"
  by (simp add: GeminiService_request_def initChat_def Let_def message_parts_def split: option.splits)

lemma GeminiService_request_value:
  "the (snd (GeminiService_request d lastMessage history config svc)) =
     \<lparr>chat_created =
        \<lparr>chat_model = model config, chat_temperature = temperature config, chat_topK = topK config,
         chat_topP = topP config,
         chat_systemInstruction = or_else (systemInstruction config) d,
         chat_thinkingBudget = (if thinkingBudget config > 0 then Some (thinkingBudget config) else None),
         chat_tools = (if useSearch config = Some True then Some [GoogleSearch] else None),
         chat_history =
           map (\<lambda>msg. Content (role msg)
                  (TextPart (content msg) #
                     (case attachment msg of None \<Rightarrow> [] | Some a \<Rightarrow> [InlineData (mimeType a) (data a)])))
               (butlast history)\<rparr>,
      sent_message = (case attachment lastMessage of
                        None \<Rightarrow> PlainText (content lastMessage)
                      | Some a \<Rightarrow> PartList [TextPart (content lastMessage), InlineData (mimeType a) (data a)])\<rparr>"
  by (simp add: GeminiService_request_eq initChat_def Let_def message_parts_def)

section \<open>Properties of the retry loop\<close>

lemma str_includes_nonempty: "str_includes s sub \<Longrightarrow> sub \<noteq> [] \<Longrightarrow> s \<noteq> []"
  by (cases s) auto

lemma isRateLimitError_nonempty: "isRateLimitError m \<Longrightarrow> m \<noteq> []"
  by (auto simp: isRateLimitError_def dest: str_includes_nonempty)

lemma exhausted_not_rate_limit:
  "\<not> isRateLimitError ''Failed to generate response after maximum retries''"
  by (simp add: isRateLimitError_def)

lemma rotateKey_wf:
  assumes "wf (keyRotation svc)"
  shows "\<exists>pool key. rotateKey svc t1 t2 = Inr (svc\<lparr>keyRotation := pool, currentKey := key\<rparr>) \<and> wf pool"
proof -
  have "\<exists>pool. (case currentKey svc of None \<Rightarrow> Inr (keyRotation svc)
                 | Some key \<Rightarrow> markKeyFailed (keyRotation svc) key t1) = Inr pool \<and> wf pool"
  proof (cases "currentKey svc")
    case None
    with assms show ?thesis by simp
  next
    case (Some key)
    with markKeyFailed_cases[OF assms, of key t1] assms show ?thesis by auto
  qed
  then obtain pool where p: "(case currentKey svc of None \<Rightarrow> Inr (keyRotation svc)
                 | Some key \<Rightarrow> markKeyFailed (keyRotation svc) key t1) = Inr pool" "wf pool" by blast
  from getNextKey_wf[OF p(2), of t2] obtain k pool' where
    "getNextKey pool t2 = Inr (k, pool')" "wf pool'" by blast
  with p(1) show ?thesis by (auto simp: rotateKey_def)
qed

lemma retry_loop_rate_limited:
  assumes body: "\<And>svc n. \<exists>c cs err svc1. body svc n = (svc1, [c], Raised cs err) \<and> attempt c = n \<and>
                    isRateLimitError (errorMessage_of err) \<and> keyRotation svc1 = keyRotation svc"
      and "wf (keyRotation svc)" and "n < MAX_RETRIES"
  shows "map attempt (calls (retry_loop failure body clock svc n)) = [n..<MAX_RETRIES] \<and>
         (\<exists>svc' svc1 c cs err. body svc' (MAX_RETRIES - 1) = (svc1, [c], Raised cs err) \<and>
            last (calls (retry_loop failure body clock svc n)) = c \<and>
            result (retry_loop failure body clock svc n) = Inl (JsError (errorMessage_of err)))"
  using assms(2,3)
proof (induction "MAX_RETRIES - n" arbitrary: svc n)
  case 0
  then show ?case by simp
next
  case (Suc k)
  from body[of svc n] obtain c cs err svc1 where
    b: "body svc n = (svc1, [c], Raised cs err)" "attempt c = n"
       "isRateLimitError (errorMessage_of err)" "keyRotation svc1 = keyRotation svc" by blast
  show ?case
  proof (cases "n < MAX_RETRIES - 1")
    case False
    with Suc.prems(2) have n: "n = MAX_RETRIES - 1" by simp
    have "retry_loop failure body clock svc n =
            \<lparr>yielded = cs, calls = [c], result = Inl (JsError (errorMessage_of err)), final = svc1\<rparr>"
      using b False Suc.prems(2) isRateLimitError_nonempty[OF b(3)]
      by (subst retry_loop.simps) (simp add: or_else_def)
    with b n show ?thesis by (auto simp: MAX_RETRIES_def)
  next
    case True
    from Suc.prems(1) b(4) have "wf (keyRotation svc1)" by simp
    from rotateKey_wf[OF this, of "clock (2 * n)" "clock (2 * n + 1)"] obtain pool key where
      rk: "rotateKey svc1 (clock (2 * n)) (clock (2 * n + 1)) =
             Inr (svc1\<lparr>keyRotation := pool, currentKey := key\<rparr>)" "wf pool" by blast
    let ?svc2 = "svc1\<lparr>keyRotation := pool, currentKey := key\<rparr>"
    let ?rest = "retry_loop failure body clock ?svc2 (n + 1)"
    have unfold: "retry_loop failure body clock svc n = prepend cs [c] ?rest"
      using b True Suc.prems(2) rk(1)
      by (subst retry_loop.simps) simp
    have k: "k = MAX_RETRIES - (n + 1)" using Suc.hyps(2) by simp
    have w2: "wf (keyRotation ?svc2)" using rk(2) by simp
    from True have lt: "n + 1 < MAX_RETRIES" by simp
    from Suc.hyps(1)[OF k w2 lt] obtain svc' svc1' c' cs' err' where
      ih: "map attempt (calls ?rest) = [n + 1..<MAX_RETRIES]"
          "body svc' (MAX_RETRIES - 1) = (svc1', [c'], Raised cs' err')"
          "last (calls ?rest) = c'" "result ?rest = Inl (JsError (errorMessage_of err'))" by blast
    have ne: "calls ?rest \<noteq> []"
    proof
      assume "calls ?rest = []"
      with ih(1) have "[n + 1..<MAX_RETRIES] = []" by simp
      with lt show False by simp
    qed
    have "map attempt (calls (retry_loop failure body clock svc n)) = [n..<MAX_RETRIES]"
      using ih(1) b(2) Suc.prems(2) by (simp add: unfold prepend_def upt_conv_Cons)
    moreover have "last (calls (retry_loop failure body clock svc n)) = c'"
      using ih(3) ne by (simp add: unfold prepend_def)
    moreover have "result (retry_loop failure body clock svc n) = Inl (JsError (errorMessage_of err'))"
      using ih(4) by (simp add: unfold prepend_def)
    ultimately show ?thesis using ih(2) by blast
  qed
qed

lemma retry_loop_other_error:
  assumes "body svc 0 = (svca, invs, Raised cs err)" and "\<not> isRateLimitError (errorMessage_of err)"
  shows "retry_loop failure body clock svc 0 =
           \<lparr>yielded = cs, calls = invs,
            result = Inl (JsError (or_else (Some (errorMessage_of err)) failure)), final = svca\<rparr>"
  using assms by (subst retry_loop.simps) (simp add: MAX_RETRIES_def)

lemma retry_loop_completed:
  assumes "body svc 0 = (svca, invs, Completed cs)"
  shows "retry_loop failure body clock svc 0 =
           \<lparr>yielded = cs, calls = invs, result = Inr (), final = svca\<rparr>"
  using assms by (subst retry_loop.simps) (simp add: MAX_RETRIES_def)

lemma retry_loop_calls:
  "c \<in> set (calls (retry_loop failure body clock svc n)) \<Longrightarrow>
     \<exists>svc' m. c \<in> set (fst (snd (body svc' m)))"
proof (induction "MAX_RETRIES - n" arbitrary: svc n)
  case 0
  then show ?case by (subst (asm) retry_loop.simps) simp
next
  case (Suc k)
  from Suc.hyps(2) have lt: "n < MAX_RETRIES" by simp
  obtain svc1 invs oc where b: "body svc n = (svc1, invs, oc)" by (cases "body svc n") auto
  show ?case
  proof (cases oc)
    case (Completed cs)
    with b lt Suc.prems have "c \<in> set invs" by (subst (asm) retry_loop.simps) simp
    with b show ?thesis by (intro exI[of _ svc] exI[of _ n]) simp
  next
    case (Raised cs err)
    show ?thesis
    proof (cases "isRateLimitError (errorMessage_of err) \<and> n < MAX_RETRIES - 1")
      case False
      with b lt Raised Suc.prems have "c \<in> set invs"
        by (subst (asm) retry_loop.simps) (auto simp: Let_def)
      with b show ?thesis by (intro exI[of _ svc] exI[of _ n]) simp
    next
      case True
      show ?thesis
      proof (cases "rotateKey svc1 (clock (2 * n)) (clock (2 * n + 1))")
        case (Inl e)
        with True b lt Raised Suc.prems have "c \<in> set invs"
          by (subst (asm) retry_loop.simps) (auto simp: Let_def)
        with b show ?thesis by (intro exI[of _ svc] exI[of _ n]) simp
      next
        case (Inr svc2)
        with True b lt Raised Suc.prems
        have "c \<in> set invs \<or> c \<in> set (calls (retry_loop failure body clock svc2 (n + 1)))"
          by (subst (asm) retry_loop.simps) (auto simp: Let_def prepend_def)
        then show ?thesis
        proof
          assume "c \<in> set invs"
          with b show ?thesis by (intro exI[of _ svc] exI[of _ n]) simp
        next
          assume r: "c \<in> set (calls (retry_loop failure body clock svc2 (n + 1)))"
          have "k = MAX_RETRIES - (n + 1)" using Suc.hyps(2) by simp
          from Suc.hyps(1)[OF this r] show ?thesis .
        qed
      qed
    qed
  qed
qed

lemma retry_loop_first_call:
  "set (fst (snd (body svc 0))) \<subseteq> set (calls (retry_loop failure body clock svc 0))"
proof -
  obtain svc1 invs oc where b: "body svc 0 = (svc1, invs, oc)" by (cases "body svc 0") auto
  have "set invs \<subseteq> set (calls (retry_loop failure body clock svc 0))"
    using b
    by (subst retry_loop.simps)
       (auto simp: MAX_RETRIES_def Let_def prepend_def split: outcome.splits sum.splits)
  with b show ?thesis by simp
qed

lemma retry_loop_all_rate_limited:
  assumes shape: "\<And>svc n. \<exists>svc1 req. keyRotation svc1 = keyRotation svc \<and>
              body svc n =
                (svc1, [\<lparr>attempt = n, credential = currentKey svc1, request = req\<rparr>],
                 case backend \<lparr>attempt = n, credential = currentKey svc1, request = req\<rparr> of
                   Stream raw \<Rightarrow> Completed (conv raw)
                 | Broken raw err \<Rightarrow> Raised (conv raw) err)"
      and every: "\<forall>c. \<exists>raw err. backend c = Broken raw err \<and> isRateLimitError (errorMessage_of err)"
      and "wf (keyRotation svc)"
  shows "map attempt (calls (retry_loop failure body clock svc 0)) = [0, 1, 2] \<and>
         (\<exists>raw err. backend (last (calls (retry_loop failure body clock svc 0))) = Broken raw err \<and>
            result (retry_loop failure body clock svc 0) = Inl (JsError (errorMessage_of err))) \<and>
         result (retry_loop failure body clock svc 0) \<noteq>
           Inl (JsError ''Failed to generate response after maximum retries'')"
proof -
  have body: "\<exists>c cs err svc1. body svc n = (svc1, [c], Raised cs err) \<and> attempt c = n \<and>
                isRateLimitError (errorMessage_of err) \<and> keyRotation svc1 = keyRotation svc \<and>
                (\<exists>raw. backend c = Broken raw err)" for svc n
  proof -
    from shape[of svc n] obtain svc1 req where
      s: "keyRotation svc1 = keyRotation svc"
         "body svc n =
            (svc1, [\<lparr>attempt = n, credential = currentKey svc1, request = req\<rparr>],
             case backend \<lparr>attempt = n, credential = currentKey svc1, request = req\<rparr> of
               Stream raw \<Rightarrow> Completed (conv raw)
             | Broken raw err \<Rightarrow> Raised (conv raw) err)" by blast
    from every obtain raw err where
      "backend \<lparr>attempt = n, credential = currentKey svc1, request = req\<rparr> = Broken raw err"
      "isRateLimitError (errorMessage_of err)" by blast
    with s show ?thesis by auto
  qed
  then have body': "\<exists>c cs err svc1. body svc n = (svc1, [c], Raised cs err) \<and> attempt c = n \<and>
                isRateLimitError (errorMessage_of err) \<and> keyRotation svc1 = keyRotation svc" for svc n
    by blast
  let ?r = "retry_loop failure body clock svc 0"
  from retry_loop_rate_limited[of body, OF body' assms(3), of 0 failure clock]
  obtain svc' svc1 c cs err where
    r: "map attempt (calls ?r) = [0..<MAX_RETRIES]"
       "body svc' (MAX_RETRIES - 1) = (svc1, [c], Raised cs err)"
       "last (calls ?r) = c" "result ?r = Inl (JsError (errorMessage_of err))"
    by (auto simp: MAX_RETRIES_def)
  from body[of svc' "MAX_RETRIES - 1"] r(2) obtain raw where
    b: "backend c = Broken raw err" "isRateLimitError (errorMessage_of err)" by auto
  from b(2) exhausted_not_rate_limit
  have "errorMessage_of err \<noteq> ''Failed to generate response after maximum retries''" by metis
  moreover have "[0..<MAX_RETRIES] = [0, 1, 2]" by (simp add: MAX_RETRIES_def upt_rec)
  ultimately show ?thesis using r b(1) by auto
qed

lemma completion_try_shape:
  "\<exists>svc1 req'. keyRotation svc1 = keyRotation svc \<and>
     completion_try backend req svc n =
       (svc1, [\<lparr>attempt = n, credential = currentKey svc1, request = req'\<rparr>],
        case backend \<lparr>attempt = n, credential = currentKey svc1, request = req'\<rparr> of
          Stream raw \<Rightarrow> Completed (delta_chunks raw)
        | Broken raw err \<Rightarrow> Raised (delta_chunks raw) err)"
  by (intro exI[of _ svc] exI[of _ req]) (simp add: completion_try_def Let_def)

lemma GeminiService_try_eq:
  "GeminiService_try d backend lastMessage history config svc n =
     (initChat d svc config history,
      [\<lparr>attempt = n, credential = currentKey svc,
        request = the (snd (GeminiService_request d lastMessage history config svc))\<rparr>],
      case backend \<lparr>attempt = n, credential = currentKey svc,
                    request = the (snd (GeminiService_request d lastMessage history config svc))\<rparr> of
        Stream raw \<Rightarrow> Completed (map gemini_chunk raw)
      | Broken raw err \<Rightarrow> Raised (map gemini_chunk raw) err)"
  by (simp add: GeminiService_try_def GeminiService_request_eq initChat_def Let_def)

lemma GeminiService_try_shape:
  "\<exists>svc1 req'. keyRotation svc1 = keyRotation svc \<and>
     GeminiService_try d backend lastMessage history config svc n =
       (svc1, [\<lparr>attempt = n, credential = currentKey svc1, request = req'\<rparr>],
        case backend \<lparr>attempt = n, credential = currentKey svc1, request = req'\<rparr> of
          Stream raw \<Rightarrow> Completed (map gemini_chunk raw)
        | Broken raw err \<Rightarrow> Raised (map gemini_chunk raw) err)"
  by (intro exI[of _ "initChat d svc config history"]
        exI[of _ "the (snd (GeminiService_request d lastMessage history config svc))"])
     (simp add: GeminiService_try_eq, simp add: initChat_def Let_def)

lemma wf_sample_groq: "wf (keyRotation sample_groq)"
  by (simp add: sample_groq_def wf_advance wf_new)

lemma wf_sample_gemini: "wf (keyRotation sample_gemini)"
  by (simp add: sample_gemini_def wf_advance wf_new)

lemma always_429_rate_limited:
  "\<forall>c. \<exists>raw err. always_429 c = Broken raw err \<and> isRateLimitError (errorMessage_of err)"
  by (simp add: always_429_def errorMessage_of_def or_else_def isRateLimitError_def)

lemma always_401_other:
  "always_401 c = Broken [] (Thrown (Some ''401 Unauthorized'') ''Error: 401 Unauthorized'') \<and>
   \<not> isRateLimitError (errorMessage_of (Thrown (Some ''401 Unauthorized'') ''Error: 401 Unauthorized''))"
  by (simp add: always_401_def errorMessage_of_def or_else_def isRateLimitError_def)

lemma always_429_result:
  "(\<exists>raw err. always_429 c = Broken raw err \<and> r = Inl (JsError (errorMessage_of err))) \<Longrightarrow>
     r = Inl (JsError ''429 Too Many Requests'')"
  by (auto simp: always_429_def errorMessage_of_def or_else_def)

section \<open>Properties of the fallback orchestration\<close>

lemma getProvider_service_of: "getProvider gem grq p = Inr (service_of gem grq p)"
  by (cases p) (simp_all add: getProvider_def providers_def service_of_def)

lemma store_prefix_loop:
  "take (length h) (store_after (fallback_loop gem grq lm hist cref primary ps h)) = h"
proof (induction ps arbitrary: h)
  case Nil
  show ?case by simp
next
  case (Cons p ps)
  have grow: "take (length h) (store_after (fallback_loop gem grq lm hist cref primary ps (h @ [v]))) = h" for v
  proof -
    have "take (length h) (take (length (h @ [v])) (store_after (fallback_loop gem grq lm hist cref primary ps (h @ [v])))) = h"
      by (simp only: Cons.IH) simp
    then show ?thesis by simp
  qed
  show ?case
    using Cons.IH[of h] grow
    by (cases p) (auto simp: getProvider_service_of alloc_def before_def Let_def split: outcome.splits)
qed

lemma tag_explicit:
  "map (tag p) cs = map (\<lambda>c. \<lparr>chunk_text = chunk_text c, grounding = grounding c, chunk_provider = Some p\<rparr>) cs"
  by (simp add: tag_def)

lemma fallback_loop_trace:
  "Suc n < length (invoked (fallback_loop gem grq lm hist cref primary ps h)) \<Longrightarrow>
     \<exists>cs e. service_of gem grq (fst (invoked (fallback_loop gem grq lm hist cref primary ps h) ! n)) lm hist
               (snd (invoked (fallback_loop gem grq lm hist cref primary ps h) ! n)) = Raised cs e"
proof (induction ps arbitrary: h n)
  case Nil
  then show ?case by simp
next
  case (Cons p ps)
  show ?case
  proof (cases "p = primary")
    case True
    with Cons.prems Cons.IH[of n h] show ?thesis by simp
  next
    case False
    let ?h1 = "h @ [h ! cref]"
    let ?h2 = "if p = GROQ then ?h1[length h := (?h1 ! length h)\<lparr>model := ''llama-3.3-70b-versatile''\<rparr>]
               else if p = GEMINI then ?h1[length h := (?h1 ! length h)\<lparr>model := ''gemini-2.5-flash''\<rparr>]
               else ?h1"
    let ?cfg = "?h2 ! length h"
    show ?thesis
    proof (cases "service_of gem grq p lm hist ?cfg")
      case (Completed cs)
      with False Cons.prems show ?thesis
        by (simp add: getProvider_service_of alloc_def Let_def)
    next
      case (Raised cs e)
      with False have eq: "fallback_loop gem grq lm hist cref primary (p # ps) h =
          before (map (tag p) cs) [(p, ?cfg)] (fallback_loop gem grq lm hist cref primary ps ?h2)"
        by (simp add: getProvider_service_of alloc_def Let_def)
      show ?thesis
      proof (cases n)
        case 0
        with Raised show ?thesis unfolding eq by (simp add: before_def)
      next
        case (Suc m)
        with Cons.prems have "Suc m < length (invoked (fallback_loop gem grq lm hist cref primary ps ?h2))"
          unfolding eq by (simp add: before_def)
        from Cons.IH[OF this] Suc show ?thesis unfolding eq by (simp add: before_def)
      qed
    qed
  qed
qed

lemma streamMessageWithFallback_trace:
  "Suc n < length (invoked (streamMessageWithFallback env gem grq lm hist cref h)) \<Longrightarrow>
     \<exists>cs e. service_of gem grq (fst (invoked (streamMessageWithFallback env gem grq lm hist cref h) ! n)) lm hist
               (snd (invoked (streamMessageWithFallback env gem grq lm hist cref h) ! n)) = Raised cs e"
proof -
  let ?primary = "case provider (h ! cref) of None \<Rightarrow> GEMINI | Some p \<Rightarrow> p"
  let ?loop = "fallback_loop gem grq lm hist cref ?primary (getAvailableProviders env) h"
  assume a: "Suc n < length (invoked (streamMessageWithFallback env gem grq lm hist cref h))"
  show ?thesis
  proof (cases "?primary \<in> set (getAvailableProviders env)")
    case False
    then have "streamMessageWithFallback env gem grq lm hist cref h = ?loop"
      by (simp add: streamMessageWithFallback_def Let_def)
    with a fallback_loop_trace[of n gem grq lm hist cref ?primary "getAvailableProviders env" h]
    show ?thesis by simp
  next
    case True
    show ?thesis
    proof (cases "service_of gem grq ?primary lm hist (h ! cref)")
      case (Completed cs)
      with True a show ?thesis
        by (simp add: streamMessageWithFallback_def Let_def getProvider_service_of)
    next
      case (Raised cs e)
      with True have eq: "streamMessageWithFallback env gem grq lm hist cref h =
          before (map (tag ?primary) cs) [(?primary, h ! cref)] ?loop"
        by (simp add: streamMessageWithFallback_def Let_def getProvider_service_of)
      show ?thesis
      proof (cases n)
        case 0
        with Raised show ?thesis by (simp add: eq before_def)
      next
        case (Suc m)
        with a have "Suc m < length (invoked ?loop)" by (simp add: eq before_def)
        from fallback_loop_trace[OF this] Suc show ?thesis by (simp add: eq before_def)
      qed
    qed
  qed
qed

section \<open>Claims about the adapters' payloads\<close>

text \<open>
  C6. For every history of length \<open>L \<ge> 1\<close>, \<^verbatim>\<open>streamMessage\<close> of each adapter submits at least
  one request, and every request it submits, on the first attempt and on each retry, carries
  the first \<open>L - 1\<close> entries of the history, in order, followed by \<open>lastMessage\<close> as the newest
  turn, after the system instruction. The chat-completion adapters send \<open>1 + L\<close> messages: the
  system message, the \<open>L - 1\<close> prior turns (role \<^verbatim>\<open>assistant\<close> for a model turn, \<^verbatim>\<open>user\<close>
  otherwise, with the content of the turn), and the content of the last message as a
  \<^verbatim>\<open>user\<close> message. The Gemini adapter creates the chat with \<open>L - 1\<close> history entries (the
  role of the turn, its text part, and its attachment if it has one) and sends the last
  message on it. The final history entry is not submitted and no prior turn is lost.
\<close>

theorem history_exclusion:
  assumes "1 \<le> length history"
  shows "calls (GroqService_streamMessage groq clock svc lastMessage history config) \<noteq> []
       \<and> (\<forall>c \<in> set (calls (GroqService_streamMessage groq clock svc lastMessage history config)).
            req_messages (request c) =
              ChatMessage ''system'' (or_else (systemInstruction config) ''You are a helpful AI assistant.'') #
              map (\<lambda>msg. ChatMessage (if role msg = Model then ''assistant'' else ''user'') (content msg))
                  (take (length history - 1) history) @
              [ChatMessage ''user'' (content lastMessage)] \<and>
            length (req_messages (request c)) = 1 + length history)
       \<and> calls (OpenRouterService_streamMessage openrouter clock svc lastMessage history config) \<noteq> []
       \<and> (\<forall>c \<in> set (calls (OpenRouterService_streamMessage openrouter clock svc lastMessage history config)).
            req_messages (request c) =
              ChatMessage ''system'' (or_else (systemInstruction config) ''You are a helpful AI assistant.'') #
              map (\<lambda>msg. ChatMessage (if role msg = Model then ''assistant'' else ''user'') (content msg))
                  (take (length history - 1) history) @
              [ChatMessage ''user'' (content lastMessage)] \<and>
            length (req_messages (request c)) = 1 + length history)
       \<and> calls (GeminiService_streamMessage d gemini clock gsvc lastMessage history config) \<noteq> []
       \<and> (\<forall>c \<in> set (calls (GeminiService_streamMessage d gemini clock gsvc lastMessage history config)).
            chat_systemInstruction (chat_created (request c)) = or_else (systemInstruction config) d \<and>
            chat_history (chat_created (request c)) =
              map (\<lambda>msg. Content (role msg)
                     (TextPart (content msg) #
                        (case attachment msg of None \<Rightarrow> []
                         | Some a \<Rightarrow> [InlineData (mimeType a) (data a)])))
                  (take (length history - 1) history) \<and>
            length (chat_history (chat_created (request c))) = length history - 1 \<and>
            sent_message (request c) =
              (case attachment lastMessage of
                 None \<Rightarrow> PlainText (content lastMessage)
               | Some a \<Rightarrow> PartList [TextPart (content lastMessage), InlineData (mimeType a) (data a)]))"
  (is "?groq_some \<and> ?groq_all \<and> ?openrouter_some \<and> ?openrouter_all \<and> ?gemini_some \<and> ?gemini_all")
proof -
  have first: "calls (retry_loop failure body clock s 0) \<noteq> []"
    if "fst (snd (body s 0)) \<noteq> []" for failure clock s
      and body :: "'s Service_scheme \<Rightarrow> nat \<Rightarrow> 's Service_scheme \<times> 'p call list \<times> outcome"
    using retry_loop_first_call[of body s failure clock] that by (cases "fst (snd (body s 0))") auto
  have g1: ?groq_some
    unfolding GroqService_streamMessage_def by (rule first) (simp add: completion_try_def Let_def)
  have o1: ?openrouter_some
    unfolding OpenRouterService_streamMessage_def by (rule first) (simp add: completion_try_def Let_def)
  have m1: ?gemini_some
    unfolding GeminiService_streamMessage_def by (rule first) (simp add: GeminiService_try_eq)
  have g2: ?groq_all
  proof
    fix c assume "c \<in> set (calls (GroqService_streamMessage groq clock svc lastMessage history config))"
    from retry_loop_calls[OF this[unfolded GroqService_streamMessage_def]]
    have "request c = GroqService_request lastMessage history config"
      by (auto simp: completion_try_def Let_def)
    with assms show "req_messages (request c) =
              ChatMessage ''system'' (or_else (systemInstruction config) ''You are a helpful AI assistant.'') #
              map (\<lambda>msg. ChatMessage (if role msg = Model then ''assistant'' else ''user'') (content msg))
                  (take (length history - 1) history) @
              [ChatMessage ''user'' (content lastMessage)] \<and>
            length (req_messages (request c)) = 1 + length history"
      by (simp add: GroqService_request_def Let_def take_butlast_conv toChatMessage_def)
  qed
  have o2: ?openrouter_all
  proof
    fix c assume "c \<in> set (calls (OpenRouterService_streamMessage openrouter clock svc lastMessage history config))"
    from retry_loop_calls[OF this[unfolded OpenRouterService_streamMessage_def]]
    have "request c = OpenRouterService_request lastMessage history config"
      by (auto simp: completion_try_def Let_def)
    with assms show "req_messages (request c) =
              ChatMessage ''system'' (or_else (systemInstruction config) ''You are a helpful AI assistant.'') #
              map (\<lambda>msg. ChatMessage (if role msg = Model then ''assistant'' else ''user'') (content msg))
                  (take (length history - 1) history) @
              [ChatMessage ''user'' (content lastMessage)] \<and>
            length (req_messages (request c)) = 1 + length history"
      by (simp add: OpenRouterService_request_def Let_def take_butlast_conv toChatMessage_def)
  qed
  have m2: ?gemini_all
  proof
    fix c assume "c \<in> set (calls (GeminiService_streamMessage d gemini clock gsvc lastMessage history config))"
    from retry_loop_calls[OF this[unfolded GeminiService_streamMessage_def]]
    obtain svc' :: GeminiService and m
      where "c \<in> set (fst (snd (GeminiService_try d gemini lastMessage history config svc' m)))"
      by blast
    then have "request c = the (snd (GeminiService_request d lastMessage history config svc'))"
      by (simp add: GeminiService_try_eq del: GeminiService_request_eq)
    then have "request c =
     \<lparr>chat_created =
        \<lparr>chat_model = model config, chat_temperature = temperature config, chat_topK = topK config,
         chat_topP = topP config,
         chat_systemInstruction = or_else (systemInstruction config) d,
         chat_thinkingBudget = (if thinkingBudget config > 0 then Some (thinkingBudget config) else None),
         chat_tools = (if useSearch config = Some True then Some [GoogleSearch] else None),
         chat_history =
           map (\<lambda>msg. Content (role msg)
                  (TextPart (content msg) #
                     (case attachment msg of None \<Rightarrow> [] | Some a \<Rightarrow> [InlineData (mimeType a) (data a)])))
               (butlast history)\<rparr>,
      sent_message = (case attachment lastMessage of
                        None \<Rightarrow> PlainText (content lastMessage)
                      | Some a \<Rightarrow> PartList [TextPart (content lastMessage), InlineData (mimeType a) (data a)])\<rparr>"
      by (simp only: GeminiService_request_value)
    then show "chat_systemInstruction (chat_created (request c)) = or_else (systemInstruction config) d \<and>
            chat_history (chat_created (request c)) =
              map (\<lambda>msg. Content (role msg)
                     (TextPart (content msg) #
                        (case attachment msg of None \<Rightarrow> []
                         | Some a \<Rightarrow> [InlineData (mimeType a) (data a)])))
                  (take (length history - 1) history) \<and>
            length (chat_history (chat_created (request c))) = length history - 1 \<and>
            sent_message (request c) =
              (case attachment lastMessage of
                 None \<Rightarrow> PlainText (content lastMessage)
               | Some a \<Rightarrow> PartList [TextPart (content lastMessage), InlineData (mimeType a) (data a)])"
      by (simp add: take_butlast_conv)
  qed
  from g1 g2 o1 o2 m1 m2 show ?thesis by (intro conjI)
qed

text \<open>A history of three turns, the first with an attachment, and backends that always answer
  429: each adapter submits three requests, each with the two prior turns and then the last
  message.\<close>

theorem history_exclusion_witness:
  "1 \<le> length [sample_message User ''look'' (Some \<lparr>mimeType = ''image/png'', data = ''iVBORw0KGgo''\<rparr>),
                 sample_message Model ''a cat'' None, sample_message User ''what colour?'' None]
   \<and> map attempt (calls (GroqService_streamMessage always_429 (\<lambda>n. 5000) sample_groq
         (sample_message User ''what colour?'' None)
         [sample_message User ''look'' (Some \<lparr>mimeType = ''image/png'', data = ''iVBORw0KGgo''\<rparr>),
          sample_message Model ''a cat'' None, sample_message User ''what colour?'' None]
         sample_config)) = [0, 1, 2]
   \<and> list_all (\<lambda>c. req_messages (request c) =
         [ChatMessage ''system'' ''You are a helpful AI assistant.'',
          ChatMessage ''user'' ''look'', ChatMessage ''assistant'' ''a cat'',
          ChatMessage ''user'' ''what colour?''])
       (calls (GroqService_streamMessage always_429 (\<lambda>n. 5000) sample_groq
         (sample_message User ''what colour?'' None)
         [sample_message User ''look'' (Some \<lparr>mimeType = ''image/png'', data = ''iVBORw0KGgo''\<rparr>),
          sample_message Model ''a cat'' None, sample_message User ''what colour?'' None]
         sample_config))
   \<and> map attempt (calls (OpenRouterService_streamMessage always_429 (\<lambda>n. 5000) sample_groq
         (sample_message User ''what colour?'' None)
         [sample_message User ''look'' (Some \<lparr>mimeType = ''image/png'', data = ''iVBORw0KGgo''\<rparr>),
          sample_message Model ''a cat'' None, sample_message User ''what colour?'' None]
         sample_config)) = [0, 1, 2]
   \<and> list_all (\<lambda>c. req_messages (request c) =
         [ChatMessage ''system'' ''You are a helpful AI assistant.'',
          ChatMessage ''user'' ''look'', ChatMessage ''assistant'' ''a cat'',
          ChatMessage ''user'' ''what colour?''])
       (calls (OpenRouterService_streamMessage always_429 (\<lambda>n. 5000) sample_groq
         (sample_message User ''what colour?'' None)
         [sample_message User ''look'' (Some \<lparr>mimeType = ''image/png'', data = ''iVBORw0KGgo''\<rparr>),
          sample_message Model ''a cat'' None, sample_message User ''what colour?'' None]
         sample_config))
   \<and> map attempt (calls (GeminiService_streamMessage ''persona'' always_429 (\<lambda>n. 5000) sample_gemini
         (sample_message User ''what colour?'' None)
         [sample_message User ''look'' (Some \<lparr>mimeType = ''image/png'', data = ''iVBORw0KGgo''\<rparr>),
          sample_message Model ''a cat'' None, sample_message User ''what colour?'' None]
         sample_config)) = [0, 1, 2]
   \<and> list_all (\<lambda>c. chat_systemInstruction (chat_created (request c)) = ''persona'' \<and>
         chat_history (chat_created (request c)) =
           [Content User [TextPart ''look'', InlineData ''image/png'' ''iVBORw0KGgo''],
            Content Model [TextPart ''a cat'']] \<and>
         sent_message (request c) = PlainText ''what colour?'')
       (calls (GeminiService_streamMessage ''persona'' always_429 (\<lambda>n. 5000) sample_gemini
         (sample_message User ''what colour?'' None)
         [sample_message User ''look'' (Some \<lparr>mimeType = ''image/png'', data = ''iVBORw0KGgo''\<rparr>),
          sample_message Model ''a cat'' None, sample_message User ''what colour?'' None]
         sample_config))"
proof -
  let ?m = "sample_message User ''what colour?'' None"
  let ?h = "[sample_message User ''look'' (Some \<lparr>mimeType = ''image/png'', data = ''iVBORw0KGgo''\<rparr>),
             sample_message Model ''a cat'' None, sample_message User ''what colour?'' None]"
  let ?groq = "GroqService_streamMessage always_429 (\<lambda>n. 5000) sample_groq ?m ?h sample_config"
  let ?openrouter = "OpenRouterService_streamMessage always_429 (\<lambda>n. 5000) sample_groq ?m ?h sample_config"
  let ?gemini = "GeminiService_streamMessage ''persona'' always_429 (\<lambda>n. 5000) sample_gemini ?m ?h sample_config"
  have 1: "1 \<le> length ?h" by simp
  note t = history_exclusion[OF 1, where groq = always_429 and clock = "\<lambda>n. 5000" and svc = sample_groq
             and lastMessage = ?m and config = sample_config and openrouter = always_429
             and d = "''persona''" and gemini = always_429 and gsvc = sample_gemini]
  have g1: "map attempt (calls ?groq) = [0, 1, 2]"
    unfolding GroqService_streamMessage_def
    using retry_loop_all_rate_limited[where body = "completion_try always_429 (GroqService_request ?m ?h sample_config)"
            and backend = always_429 and conv = delta_chunks and svc = sample_groq,
            OF completion_try_shape always_429_rate_limited wf_sample_groq]
    by blast
  have o1: "map attempt (calls ?openrouter) = [0, 1, 2]"
    unfolding OpenRouterService_streamMessage_def
    using retry_loop_all_rate_limited[where body = "completion_try always_429 (OpenRouterService_request ?m ?h sample_config)"
            and backend = always_429 and conv = delta_chunks and svc = sample_groq,
            OF completion_try_shape always_429_rate_limited wf_sample_groq]
    by blast
  have m1: "map attempt (calls ?gemini) = [0, 1, 2]"
    unfolding GeminiService_streamMessage_def
    using retry_loop_all_rate_limited[where body = "GeminiService_try ''persona'' always_429 ?m ?h sample_config"
            and backend = always_429 and conv = "map gemini_chunk" and svc = sample_gemini,
            OF GeminiService_try_shape always_429_rate_limited wf_sample_gemini]
    by blast
  have sys: "or_else (systemInstruction sample_config) x = x" for x
    by (simp add: sample_config_def or_else_def)
  from t[THEN conjunct2, THEN conjunct1]
  have g2: "list_all (\<lambda>c. req_messages (request c) =
         [ChatMessage ''system'' ''You are a helpful AI assistant.'',
          ChatMessage ''user'' ''look'', ChatMessage ''assistant'' ''a cat'',
          ChatMessage ''user'' ''what colour?'']) (calls ?groq)"
    by (simp add: list_all_iff sys) (simp add: sample_message_def)
  from t[THEN conjunct2, THEN conjunct2, THEN conjunct2, THEN conjunct1]
  have o2: "list_all (\<lambda>c. req_messages (request c) =
         [ChatMessage ''system'' ''You are a helpful AI assistant.'',
          ChatMessage ''user'' ''look'', ChatMessage ''assistant'' ''a cat'',
          ChatMessage ''user'' ''what colour?'']) (calls ?openrouter)"
    by (simp add: list_all_iff sys) (simp add: sample_message_def)
  from t[THEN conjunct2, THEN conjunct2, THEN conjunct2, THEN conjunct2, THEN conjunct2]
  have m2: "list_all (\<lambda>c. chat_systemInstruction (chat_created (request c)) = ''persona'' \<and>
         chat_history (chat_created (request c)) =
           [Content User [TextPart ''look'', InlineData ''image/png'' ''iVBORw0KGgo''],
            Content Model [TextPart ''a cat'']] \<and>
         sent_message (request c) = PlainText ''what colour?'') (calls ?gemini)"
    by (simp add: list_all_iff sys) (simp add: sample_message_def)
  from 1 g1 g2 o1 o2 m1 m2 show ?thesis by (intro conjI)
qed

text \<open>
  C8 as stated fails for the Groq adapter: a last message with a PNG attachment produces a
  request whose only user message is the text; the attachment is nowhere in it.
\<close>

theorem attachment_groq_counterexample:
  "attachment (sample_message User ''describe'' (Some \<lparr>mimeType = ''image/png'', data = ''iVBORw0KGgo''\<rparr>))
      = Some \<lparr>mimeType = ''image/png'', data = ''iVBORw0KGgo''\<rparr>
   \<and> GroqService_request
        (sample_message User ''describe'' (Some \<lparr>mimeType = ''image/png'', data = ''iVBORw0KGgo''\<rparr>))
        [sample_message User ''describe'' (Some \<lparr>mimeType = ''image/png'', data = ''iVBORw0KGgo''\<rparr>)]
        sample_config
      = \<lparr>req_model = ''gemini-2.5-pro'',
         req_messages = [ChatMessage ''system'' ''You are a helpful AI assistant.'',
                         ChatMessage ''user'' ''describe''],
         req_temperature = 0.7, req_top_p = 0.95, req_stream = True, req_max_tokens = 8000\<rparr>"
  by (simp add: GroqService_request_def sample_message_def sample_config_def or_else_def)

text \<open>
  C8, amended. If \<open>lastMessage\<close> carries an attachment, the Gemini adapter sends the text part
  followed by the attachment as an inline-data part. The Groq and OpenRouter adapters send the
  text of the message alone: their request is the one they build for the same message without
  the attachment.
\<close>

theorem attachment_handling:
  assumes "attachment lastMessage = Some a"
  shows "(\<exists>svc1 req. GeminiService_request d lastMessage history config svc = (svc1, Some req) \<and>
            sent_message req = PartList [TextPart (content lastMessage), InlineData (mimeType a) (data a)])
       \<and> last (req_messages (GroqService_request lastMessage history config)) =
            ChatMessage ''user'' (content lastMessage)
       \<and> GroqService_request lastMessage history config =
            GroqService_request (lastMessage\<lparr>attachment := None\<rparr>) history config
       \<and> last (req_messages (OpenRouterService_request lastMessage history config)) =
            ChatMessage ''user'' (content lastMessage)
       \<and> OpenRouterService_request lastMessage history config =
            OpenRouterService_request (lastMessage\<lparr>attachment := None\<rparr>) history config"
  using assms
  by (simp add: GeminiService_request_eq GroqService_request_def OpenRouterService_request_def Let_def)

text \<open>The Gemini request for a message with a PNG attachment.\<close>

theorem attachment_handling_witness:
  "attachment (sample_message User ''describe'' (Some \<lparr>mimeType = ''image/png'', data = ''iVBORw0KGgo''\<rparr>))
      = Some \<lparr>mimeType = ''image/png'', data = ''iVBORw0KGgo''\<rparr>
   \<and> snd (GeminiService_request ''persona''
        (sample_message User ''describe'' (Some \<lparr>mimeType = ''image/png'', data = ''iVBORw0KGgo''\<rparr>))
        [sample_message User ''describe'' (Some \<lparr>mimeType = ''image/png'', data = ''iVBORw0KGgo''\<rparr>)]
        sample_config sample_gemini)
      = Some \<lparr>chat_created =
                \<lparr>chat_model = ''gemini-2.5-pro'', chat_temperature = 0.7, chat_topK = 40,
                 chat_topP = 0.95, chat_systemInstruction = ''persona'', chat_thinkingBudget = None,
                 chat_tools = None, chat_history = []\<rparr>,
              sent_message = PartList [TextPart ''describe'', InlineData ''image/png'' ''iVBORw0KGgo'']\<rparr>"
proof -
  have a: "attachment (sample_message User ''describe'' (Some \<lparr>mimeType = ''image/png'', data = ''iVBORw0KGgo''\<rparr>))
      = Some \<lparr>mimeType = ''image/png'', data = ''iVBORw0KGgo''\<rparr>"
    by (simp add: sample_message_def)
  from attachment_handling[OF a, of "''persona''"
      "[sample_message User ''describe'' (Some \<lparr>mimeType = ''image/png'', data = ''iVBORw0KGgo''\<rparr>)]"
      sample_config sample_gemini] a
  show ?thesis
    by (auto simp: GeminiService_request_eq initChat_def Let_def sample_config_def sample_message_def
        or_else_def sample_gemini_def)
qed

section \<open>Claims about the fallback orchestration\<close>

text \<open>
  C3 as stated fails: the chunks that the primary provider yields before it raises have already
  been passed on, tagged with the primary. Gemini yields one chunk and fails with a 503, Groq
  answers: the stream holds a chunk tagged \<open>GEMINI\<close> before the chunk tagged \<open>GROQ\<close>, and
  ends normally.
\<close>

theorem fallback_partial_counterexample:
  "out (streamMessageWithFallback sample_env
        (failing_service [sample_chunk ''par''] ''503 unavailable'')
        (answering_service ''llama-3.3-70b-versatile'' [sample_chunk ''4''])
        (sample_message User ''2+2?'' None) [sample_message User ''2+2?'' None] 0 [sample_config])
     = [\<lparr>chunk_text = ''par'', grounding = None, chunk_provider = Some GEMINI\<rparr>,
        \<lparr>chunk_text = ''4'', grounding = None, chunk_provider = Some GROQ\<rparr>]
   \<and> ending (streamMessageWithFallback sample_env
        (failing_service [sample_chunk ''par''] ''503 unavailable'')
        (answering_service ''llama-3.3-70b-versatile'' [sample_chunk ''4''])
        (sample_message User ''2+2?'' None) [sample_message User ''2+2?'' None] 0 [sample_config])
     = Inr ()
   \<and> Some GEMINI \<noteq> Some GROQ"
  by (simp add: streamMessageWithFallback_def Let_def getAvailableProviders_def sample_env_def
      truthy_def sample_config_def getProvider_service_of service_of_def failing_service_def
      answering_service_def alloc_def before_def tag_def sample_chunk_def)

text \<open>
  C3, amended. When the primary provider is available and its stream raises after yielding the
  chunks \<open>cs1\<close>, and the other available provider's stream completes with the chunks \<open>cs2\<close>
  when called with the model rewritten to that provider's default, the request yields the
  chunks \<open>cs1\<close>, each tagged with the primary, and then the chunks \<open>cs2\<close>, each tagged with
  the successful provider (so every chunk carries the successful provider's tag exactly when
  the primary raised before yielding); it invokes the primary with the caller's configuration
  and then the successful provider with the rewritten model, and ends normally. In every
  request, each provider invoked before the last invocation raised: no provider is invoked
  after one that completed.
\<close>

theorem fallback_cascade:
  assumes "primary = (case provider (h ! cref) of None \<Rightarrow> GEMINI | Some p \<Rightarrow> p)"
      and "isProviderAvailable env primary" and "isProviderAvailable env other"
      and "other \<noteq> primary"
      and "fallbackConfig = (h ! cref)\<lparr>model := (if other = GROQ then ''llama-3.3-70b-versatile''
                                                  else ''gemini-2.5-flash'')\<rparr>"
      and "service_of gem grq primary lastMessage history (h ! cref) = Raised cs1 err"
      and "service_of gem grq other lastMessage history fallbackConfig = Completed cs2"
  shows "out (streamMessageWithFallback env gem grq lastMessage history cref h) =
           map (\<lambda>c. \<lparr>chunk_text = chunk_text c, grounding = grounding c, chunk_provider = Some primary\<rparr>) cs1 @
           map (\<lambda>c. \<lparr>chunk_text = chunk_text c, grounding = grounding c, chunk_provider = Some other\<rparr>) cs2
       \<and> map chunk_provider (out (streamMessageWithFallback env gem grq lastMessage history cref h)) =
           replicate (length cs1) (Some primary) @ replicate (length cs2) (Some other)
       \<and> invoked (streamMessageWithFallback env gem grq lastMessage history cref h) =
           [(primary, h ! cref), (other, fallbackConfig)]
       \<and> ending (streamMessageWithFallback env gem grq lastMessage history cref h) = Inr ()
       \<and> (\<forall>env' gem' grq' h' cref' n.
            Suc n < length (invoked (streamMessageWithFallback env' gem' grq' lastMessage history cref' h')) \<longrightarrow>
            (\<exists>cs e. service_of gem' grq'
                       (fst (invoked (streamMessageWithFallback env' gem' grq' lastMessage history cref' h') ! n))
                       lastMessage history
                       (snd (invoked (streamMessageWithFallback env' gem' grq' lastMessage history cref' h') ! n))
                     = Raised cs e))"
proof -
  have avail: "getAvailableProviders env = [GEMINI, GROQ]"
    using assms(2,3,4) by (cases primary; cases other) (simp_all add: getAvailableProviders_def)
  have o: "out (streamMessageWithFallback env gem grq lastMessage history cref h) =
             map (tag primary) cs1 @ map (tag other) cs2"
    and i: "invoked (streamMessageWithFallback env gem grq lastMessage history cref h) =
           [(primary, h ! cref), (other, fallbackConfig)]"
    and e: "ending (streamMessageWithFallback env gem grq lastMessage history cref h) = Inr ()"
    using assms avail
    by (cases primary; cases other;
        simp add: streamMessageWithFallback_def Let_def getProvider_service_of alloc_def
          before_def nth_append)+
  have tags: "map (chunk_provider \<circ> tag p) cs = replicate (length cs) (Some p)" for p cs
    by (induction cs) (simp_all add: tag_def)
  from o have o': "out (streamMessageWithFallback env gem grq lastMessage history cref h) =
           map (\<lambda>c. \<lparr>chunk_text = chunk_text c, grounding = grounding c, chunk_provider = Some primary\<rparr>) cs1 @
           map (\<lambda>c. \<lparr>chunk_text = chunk_text c, grounding = grounding c, chunk_provider = Some other\<rparr>) cs2"
    by (simp only: tag_explicit)
  from o have t: "map chunk_provider (out (streamMessageWithFallback env gem grq lastMessage history cref h)) =
           replicate (length cs1) (Some primary) @ replicate (length cs2) (Some other)"
    by (simp add: tags)
  from o' t i e streamMessageWithFallback_trace show ?thesis by blast
qed

text \<open>Gemini yields one chunk and fails with a 503, Groq answers with two chunks under its
  default model.\<close>

theorem fallback_cascade_witness:
  "isProviderAvailable sample_env GEMINI \<and> isProviderAvailable sample_env GROQ
   \<and> out (streamMessageWithFallback sample_env
        (failing_service [sample_chunk ''The answer''] ''503 unavailable'')
        (answering_service ''llama-3.3-70b-versatile'' [sample_chunk ''4'', sample_chunk ''.''])
        (sample_message User ''2+2?'' None) [sample_message User ''2+2?'' None] 0 [sample_config])
     = [\<lparr>chunk_text = ''The answer'', grounding = None, chunk_provider = Some GEMINI\<rparr>,
        \<lparr>chunk_text = ''4'', grounding = None, chunk_provider = Some GROQ\<rparr>,
        \<lparr>chunk_text = ''.'', grounding = None, chunk_provider = Some GROQ\<rparr>]
   \<and> map chunk_provider (out (streamMessageWithFallback sample_env
        (failing_service [sample_chunk ''The answer''] ''503 unavailable'')
        (answering_service ''llama-3.3-70b-versatile'' [sample_chunk ''4'', sample_chunk ''.''])
        (sample_message User ''2+2?'' None) [sample_message User ''2+2?'' None] 0 [sample_config]))
     = [Some GEMINI, Some GROQ, Some GROQ]
   \<and> invoked (streamMessageWithFallback sample_env
        (failing_service [sample_chunk ''The answer''] ''503 unavailable'')
        (answering_service ''llama-3.3-70b-versatile'' [sample_chunk ''4'', sample_chunk ''.''])
        (sample_message User ''2+2?'' None) [sample_message User ''2+2?'' None] 0 [sample_config])
     = [(GEMINI, sample_config), (GROQ, sample_config\<lparr>model := ''llama-3.3-70b-versatile''\<rparr>)]
   \<and> ending (streamMessageWithFallback sample_env
        (failing_service [sample_chunk ''The answer''] ''503 unavailable'')
        (answering_service ''llama-3.3-70b-versatile'' [sample_chunk ''4'', sample_chunk ''.''])
        (sample_message User ''2+2?'' None) [sample_message User ''2+2?'' None] 0 [sample_config])
     = Inr ()
   \<and> (\<exists>cs e. service_of (failing_service [sample_chunk ''The answer''] ''503 unavailable'')
        (answering_service ''llama-3.3-70b-versatile'' [sample_chunk ''4'', sample_chunk ''.''])
        GEMINI (sample_message User ''2+2?'' None) [sample_message User ''2+2?'' None] sample_config
          = Raised cs e)"
proof -
  let ?gem = "failing_service [sample_chunk ''The answer''] ''503 unavailable''"
  let ?grq = "answering_service ''llama-3.3-70b-versatile'' [sample_chunk ''4'', sample_chunk ''.'']"
  let ?m = "sample_message User ''2+2?'' None"
  let ?run = "streamMessageWithFallback sample_env ?gem ?grq ?m [?m] 0 [sample_config]"
  have 1: "GEMINI = (case provider ([sample_config] ! 0) of None \<Rightarrow> GEMINI | Some p \<Rightarrow> p)"
    by (simp add: sample_config_def)
  have 2: "isProviderAvailable sample_env GEMINI" by (simp add: sample_env_def truthy_def)
  have 3: "isProviderAvailable sample_env GROQ" by (simp add: sample_env_def truthy_def)
  have 4: "GROQ \<noteq> GEMINI" by simp
  have 5: "sample_config\<lparr>model := ''llama-3.3-70b-versatile''\<rparr> =
             ([sample_config] ! 0)\<lparr>model := (if GROQ = GROQ then ''llama-3.3-70b-versatile''
                                            else ''gemini-2.5-flash'')\<rparr>" by simp
  have 6: "service_of ?gem ?grq GEMINI ?m [?m] ([sample_config] ! 0)
           = Raised [sample_chunk ''The answer'']
               (Thrown (Some ''503 unavailable'') (''Error: '' @ ''503 unavailable''))"
    by (simp add: service_of_def failing_service_def)
  have 7: "service_of ?gem ?grq GROQ ?m [?m] (sample_config\<lparr>model := ''llama-3.3-70b-versatile''\<rparr>)
           = Completed [sample_chunk ''4'', sample_chunk ''.'']"
    by (simp add: service_of_def answering_service_def)
  note r = fallback_cascade[OF 1 2 3 4 5 6 7]
  from r[THEN conjunct1] have a: "out ?run =
      [\<lparr>chunk_text = ''The answer'', grounding = None, chunk_provider = Some GEMINI\<rparr>,
       \<lparr>chunk_text = ''4'', grounding = None, chunk_provider = Some GROQ\<rparr>,
       \<lparr>chunk_text = ''.'', grounding = None, chunk_provider = Some GROQ\<rparr>]"
    by (simp add: sample_chunk_def)
  from r[THEN conjunct2, THEN conjunct1]
  have b: "map chunk_provider (out ?run) = [Some GEMINI, Some GROQ, Some GROQ]" by simp
  from r[THEN conjunct2, THEN conjunct2, THEN conjunct1]
  have c: "invoked ?run = [(GEMINI, sample_config), (GROQ, sample_config\<lparr>model := ''llama-3.3-70b-versatile''\<rparr>)]"
    by simp
  from r[THEN conjunct2, THEN conjunct2, THEN conjunct2, THEN conjunct1]
  have d: "ending ?run = Inr ()" .
  from c have l: "Suc 0 < length (invoked ?run)" by simp
  from r[THEN conjunct2, THEN conjunct2, THEN conjunct2, THEN conjunct2, THEN spec, THEN spec, THEN spec,
         THEN spec, THEN spec, THEN spec, THEN mp, OF l]
  have e: "\<exists>cs e. service_of ?gem ?grq GEMINI ?m [?m] sample_config = Raised cs e"
    by (simp add: c)
  from 2 3 a b c d e show ?thesis by (intro conjI)
qed

text \<open>
  C9. If no provider has a configured credential, the request raises
  \<^verbatim>\<open>All AI providers failed. Please check your API keys.\<close> at once: nothing is yielded, no
  service is invoked and the store is untouched.
\<close>

theorem no_provider_configured:
  assumes "getAvailableProviders env = []"
  shows "streamMessageWithFallback env gem grq lastMessage history cref h =
           \<lparr>out = [], invoked = [],
            ending = Inl (JsError ''All AI providers failed. Please check your API keys.''),
            store_after = h\<rparr>"
  using assms by (simp add: streamMessageWithFallback_def Let_def)

text \<open>No Gemini key and an empty Groq key: both providers are unavailable.\<close>

theorem no_provider_configured_witness:
  "getAvailableProviders \<lparr>GEMINI_API_KEY = None, GROQ_API_KEY = Some ''''\<rparr> = []
   \<and> invoked (streamMessageWithFallback \<lparr>GEMINI_API_KEY = None, GROQ_API_KEY = Some ''''\<rparr>
        (answering_service ''gemini-2.5-pro'' [sample_chunk ''4''])
        (answering_service ''llama-3.3-70b-versatile'' [sample_chunk ''4''])
        (sample_message User ''2+2?'' None) [sample_message User ''2+2?'' None] 0 [sample_config]) = []
   \<and> ending (streamMessageWithFallback \<lparr>GEMINI_API_KEY = None, GROQ_API_KEY = Some ''''\<rparr>
        (answering_service ''gemini-2.5-pro'' [sample_chunk ''4''])
        (answering_service ''llama-3.3-70b-versatile'' [sample_chunk ''4''])
        (sample_message User ''2+2?'' None) [sample_message User ''2+2?'' None] 0 [sample_config])
      = Inl (JsError ''All AI providers failed. Please check your API keys.'')"
proof -
  have e: "getAvailableProviders \<lparr>GEMINI_API_KEY = None, GROQ_API_KEY = Some ''''\<rparr> = []"
    by (simp add: getAvailableProviders_def truthy_def)
  from no_provider_configured[OF e] e show ?thesis by simp
qed

text \<open>
  C10. The request never assigns to the caller's configuration object: the default model of a
  fallback provider is written to a fresh copy, so whether the request ends by completion or
  by raising, the object at the caller's address is what it was at entry.
\<close>

theorem config_not_mutated:
  assumes "cref < length h"
  shows "store_after (streamMessageWithFallback env gem grq lastMessage history cref h) ! cref = h ! cref"
proof -
  let ?r = "streamMessageWithFallback env gem grq lastMessage history cref h"
  have "take (length h) (store_after ?r) = h"
    by (simp add: streamMessageWithFallback_def Let_def getProvider_service_of before_def
        store_prefix_loop split: outcome.splits)
  then have "take (length h) (store_after ?r) ! cref = h ! cref" by simp
  with assms show ?thesis by simp
qed

text \<open>After a fallback to Groq the store holds the caller's object unchanged and the copy.\<close>

theorem config_not_mutated_witness:
  "(0::nat) < length [sample_config]
   \<and> store_after (streamMessageWithFallback sample_env
        (failing_service [sample_chunk ''par''] ''503 unavailable'')
        (answering_service ''llama-3.3-70b-versatile'' [sample_chunk ''4''])
        (sample_message User ''2+2?'' None) [sample_message User ''2+2?'' None] 0 [sample_config])
      = [sample_config, sample_config\<lparr>model := ''llama-3.3-70b-versatile''\<rparr>]"
  using config_not_mutated[of 0 "[sample_config]" sample_env
        "failing_service [sample_chunk ''par''] ''503 unavailable''"
        "answering_service ''llama-3.3-70b-versatile'' [sample_chunk ''4'']"
        "sample_message User ''2+2?'' None" "[sample_message User ''2+2?'' None]"]
  by (simp add: streamMessageWithFallback_def Let_def getAvailableProviders_def sample_env_def
      truthy_def sample_config_def getProvider_service_of service_of_def failing_service_def
      answering_service_def alloc_def before_def)

section \<open>Claims about the key pool\<close>

text \<open>
  C5. On a pool of \<open>N\<close> keys on which no failure has been marked, \<open>N\<close> consecutive calls of
  \<^verbatim>\<open>getNextKey()\<close>, whatever the clock shows, return the keys in cyclic order starting at the
  cursor, each position of the pool exactly once, and leave the pool as it was.
\<close>

theorem round_robin:
  assumes "no_failures s" and "currentIndex s < length (keys s)" and "length ts = length (keys s)"
  shows "getNextKeys s ts = Inr (map Some (rotate (currentIndex s) (keys s)), s)"
proof -
  have "map (\<lambda>m. Some (keys s ! ((currentIndex s + m) mod length (keys s)))) [0..<length (keys s)] =
        map Some (rotate (currentIndex s) (keys s))"
    by (rule nth_equalityI) (simp_all add: nth_rotate)
  moreover have "s\<lparr>currentIndex := (currentIndex s + length (keys s)) mod length (keys s)\<rparr> = s"
    using assms(2) by simp
  ultimately show ?thesis
    using getNextKeys_no_failures[OF assms(1,2), of ts] assms(3) by simp
qed

text \<open>A pool parsed from three keys, its cursor on the second.\<close>

theorem round_robin_witness:
  "no_failures (advance (new_ApiKeyRotation (KeyString ''k1, k2,k3'')))
   \<and> currentIndex (advance (new_ApiKeyRotation (KeyString ''k1, k2,k3'')))
       < length (keys (advance (new_ApiKeyRotation (KeyString ''k1, k2,k3''))))
   \<and> length [10, 20, 30 :: int] = length (keys (advance (new_ApiKeyRotation (KeyString ''k1, k2,k3''))))
   \<and> getNextKeys (advance (new_ApiKeyRotation (KeyString ''k1, k2,k3''))) [10, 20, 30] =
       Inr ([Some ''k2'', Some ''k3'', Some ''k1''], advance (new_ApiKeyRotation (KeyString ''k1, k2,k3'')))"
proof -
  let ?s = "advance (new_ApiKeyRotation (KeyString ''k1, k2,k3''))"
  have 1: "no_failures ?s" using no_failures_new by (simp add: no_failures_def)
  have 2: "currentIndex ?s < length (keys ?s)" by (simp add: keys_sample)
  have 3: "length [10, 20, 30 :: int] = length (keys ?s)" by (simp add: keys_sample)
  have 4: "currentIndex ?s = 1" by (simp add: keys_sample)
  have 5: "rotate 1 [''k1'', ''k2'', ''k3''] = [''k2'', ''k3'', ''k1'']" by simp
  from round_robin[OF 1 2 3] have
    "getNextKeys ?s [10, 20, 30] = Inr (map Some (rotate 1 [''k1'', ''k2'', ''k3'']), ?s)"
    by (simp only: 4 keys_advance keys_sample)
  with 1 2 3 show ?thesis by (simp only: 5) simp
qed

text \<open>
  C2 does not hold of the code. In a pool of two keys the first key fails three times, at 1000,
  2000 and 3000, and nobody calls \<^verbatim>\<open>resetKey\<close>. Its failure count is 3, the value of
  \<open>MAX_FAILURES\<close>, and \<^verbatim>\<open>getAvailableKeyCount()\<close> at 100000, after the cooldown, counts one
  available key only. Yet two \<^verbatim>\<open>getNextKey()\<close> calls at 100000 and 100001 return the second
  key and then the first one, and leave the failure count of the first key at 0:
  \<^verbatim>\<open>getNextKey()\<close> resets a key whose cooldown has expired before it compares the failure count
  with \<open>MAX_FAILURES\<close>.
\<close>

theorem quarantine_lifted_by_expiry:
  "failureCount_of (run_ops (new_ApiKeyRotation (KeyString ''k1,k2''))
       [MarkKeyFailed ''k1'' 1000, MarkKeyFailed ''k1'' 2000, MarkKeyFailed ''k1'' 3000]) 0 = Some 3
   \<and> MAX_FAILURES \<le> 3
   \<and> available_count (run_ops (new_ApiKeyRotation (KeyString ''k1,k2''))
       [MarkKeyFailed ''k1'' 1000, MarkKeyFailed ''k1'' 2000, MarkKeyFailed ''k1'' 3000]) 100000 = Some 1
   \<and> keys_returned (run_ops (new_ApiKeyRotation (KeyString ''k1,k2''))
       [MarkKeyFailed ''k1'' 1000, MarkKeyFailed ''k1'' 2000, MarkKeyFailed ''k1'' 3000])
       [100000, 100001] = Some [Some ''k2'', Some ''k1'']
   \<and> failureCount_of (run_ops (new_ApiKeyRotation (KeyString ''k1,k2''))
       [MarkKeyFailed ''k1'' 1000, MarkKeyFailed ''k1'' 2000, MarkKeyFailed ''k1'' 3000,
        GetNextKey 100000, GetNextKey 100001]) 0 = Some 0"
  by code_simp

text \<open>
  C4 as stated fails. In a pool of one key, the key marked failed at 1000 is returned by the
  calls at 1001 and 1002, inside its cooldown, as the last resort. In a pool that lists the
  same key twice, marking it failed marks its first position, and the next call returns the
  key from its second position. And a failure stamped with the clock reading 0 starts no
  cooldown, since \<^verbatim>\<open>if (status.failedAt)\<close> takes 0 for no failure time: the key comes back on
  the second call.
\<close>

theorem cooldown_counterexample:
  "keys_returned (run_ops (new_ApiKeyRotation (KeyString ''k1'')) [MarkKeyFailed ''k1'' 1000])
       [1001, 1002] = Some [Some ''k1'', Some ''k1'']
   \<and> keys_returned (run_ops (new_ApiKeyRotation (KeyString ''k1,k1'')) [MarkKeyFailed ''k1'' 1000])
       [1001] = Some [Some ''k1'']
   \<and> keys_returned (run_ops (new_ApiKeyRotation (KeyString ''k1,k2'')) [MarkKeyFailed ''k1'' 0])
       [1, 2] = Some [Some ''k2'', Some ''k1'']"
  by code_simp

text \<open>
  C4, amended. In a well-formed pool of distinct keys, after \<^verbatim>\<open>markKeyFailed(k)\<close> at a non-zero
  clock reading \<open>t0\<close>, any number of \<^verbatim>\<open>getNextKey()\<close> calls at readings less than
  \<open>COOLDOWN_MS\<close> after \<open>t0\<close> all return. A call returns \<open>k\<close> only as the last resort: the
  cursor stands on \<open>k\<close> when the call starts and every key of the pool is skipped at that
  reading. So if the pool holds another key that is skipped at none of those readings, no call
  returns \<open>k\<close>.
\<close>

theorem cooldown_isolation:
  assumes "wf s" and "distinct (keys s)" and "t0 \<noteq> 0"
      and "\<forall>t \<in> set ts. t - t0 < COOLDOWN_MS"
  shows "\<exists>s1 ks s'. markKeyFailed s k t0 = Inr s1 \<and> getNextKeys s1 ts = Inr (ks, s') \<and>
           length ks = length ts \<and>
           (\<forall>n < length ts. ks ! n = Some k \<longrightarrow>
              (\<exists>ksn sn. getNextKeys s1 (take n ts) = Inr (ksn, sn) \<and>
                 js_nth (keys sn) (currentIndex sn) = Some k \<and>
                 (\<forall>j < length (keys sn). \<exists>stj. keyStatuses sn j = Some stj \<and> skipped (ts ! n) stj))) \<and>
           (\<forall>j stj. j < length (keys s) \<and> keys s ! j \<noteq> k \<and> keyStatuses s j = Some stj \<and>
                    (\<forall>t \<in> set ts. \<not> skipped t stj) \<longrightarrow> Some k \<notin> set ks)"
proof -
  from markKeyFailed_cases[OF assms(1), of k t0]
  consider (absent) "k \<notin> set (keys s)" "markKeyFailed s k t0 = Inr s"
    | (present) i st s1 where "i < length (keys s)" "keys s ! i = k" "keyStatuses s i = Some st"
        "markKeyFailed s k t0 = Inr s1" "wf s1" "keys s1 = keys s"
        "keyStatuses s1 = (keyStatuses s)(i \<mapsto> st\<lparr>failureCount := failureCount st + 1, failedAt := Some t0\<rparr>)"
    by blast
  then show ?thesis
  proof cases
    case absent
    from getNextKeys_in_keys[OF assms(1), of ts] obtain ks s' where
      r: "getNextKeys s ts = Inr (ks, s')" "length ks = length ts"
         "\<forall>x \<in> set ks. \<exists>key \<in> set (keys s). x = Some key" by blast
    from r(3) absent(1) have no: "Some k \<notin> set ks" by auto
    with r(2) have "\<forall>n < length ts. ks ! n \<noteq> Some k" by (metis nth_mem)
    with absent(2) r(1,2) no show ?thesis by auto
  next
    case present
    let ?st = "st\<lparr>failureCount := failureCount st + 1, failedAt := Some t0\<rparr>"
    have si: "keyStatuses s1 i = Some ?st" by (simp add: present(7))
    have cool: "\<forall>t \<in> set ts. inCooldown t ?st"
      using assms(3,4) by (simp add: inCooldown_def)
    have d1: "distinct (keys s1)" and i1: "i < length (keys s1)"
      using assms(2) present(1,6) by simp_all
    from cooling_calls[OF present(5) d1 i1 si cool] present(2,6) obtain ks s' where
      r: "getNextKeys s1 ts = Inr (ks, s')" "length ks = length ts"
         "\<forall>n < length ts. ks ! n = Some k \<longrightarrow>
              (\<exists>ksn sn. getNextKeys s1 (take n ts) = Inr (ksn, sn) \<and> keys sn = keys s \<and>
                 currentIndex sn = i \<and>
                 (\<forall>j < length (keys s). \<exists>stj. keyStatuses sn j = Some stj \<and> skipped (ts ! n) stj))"
      by auto
    have b: "\<forall>n < length ts. ks ! n = Some k \<longrightarrow>
              (\<exists>ksn sn. getNextKeys s1 (take n ts) = Inr (ksn, sn) \<and>
                 js_nth (keys sn) (currentIndex sn) = Some k \<and>
                 (\<forall>j < length (keys sn). \<exists>stj. keyStatuses sn j = Some stj \<and> skipped (ts ! n) stj))"
    proof (intro allI impI)
      fix n assume "n < length ts" "ks ! n = Some k"
      with r(3) obtain ksn sn where
        "getNextKeys s1 (take n ts) = Inr (ksn, sn)" "keys sn = keys s" "currentIndex sn = i"
        "\<forall>j < length (keys s). \<exists>stj. keyStatuses sn j = Some stj \<and> skipped (ts ! n) stj" by blast
      with present(1,2) show "\<exists>ksn sn. getNextKeys s1 (take n ts) = Inr (ksn, sn) \<and>
                 js_nth (keys sn) (currentIndex sn) = Some k \<and>
                 (\<forall>j < length (keys sn). \<exists>stj. keyStatuses sn j = Some stj \<and> skipped (ts ! n) stj)"
        by (auto simp: js_nth_def)
    qed
    have c: "Some k \<notin> set ks"
      if "j < length (keys s)" "keys s ! j \<noteq> k" "keyStatuses s j = Some stj"
         "\<forall>t \<in> set ts. \<not> skipped t stj" for j stj
    proof -
      from that(2) present(2) have "j \<noteq> i" by auto
      with that(3) have sj: "keyStatuses s1 j = Some stj" by (simp add: present(7))
      from that(1) present(6) have j1: "j < length (keys s1)" by simp
      from cooling_calls_avoid[OF present(5) d1 i1 si cool j1 sj that(4) r(1)] present(2,6)
      show ?thesis by simp
    qed
    from present(4) r(1,2) b c show ?thesis by blast
  qed
qed

text \<open>Two keys, the first marked failed at 1000, three calls before 61000: the second key
  answers each of them. One key, marked failed at 1000: the call at 1001 returns it, the cursor
  stands on it and it is skipped.\<close>

theorem cooldown_isolation_witness:
  "wf (new_ApiKeyRotation (KeyArray [''k1'', ''k2'']))
   \<and> distinct (keys (new_ApiKeyRotation (KeyArray [''k1'', ''k2''])))
   \<and> (1000::int) \<noteq> 0
   \<and> list_all (\<lambda>t. t - 1000 < COOLDOWN_MS) [1001, 30000, 60999]
   \<and> keys (new_ApiKeyRotation (KeyArray [''k1'', ''k2''])) ! 1 \<noteq> ''k1''
   \<and> keyStatuses (new_ApiKeyRotation (KeyArray [''k1'', ''k2''])) 1 = Some (initial_status 1)
   \<and> list_all (\<lambda>t. \<not> skipped t (initial_status 1)) [1001, 30000, 60999]
   \<and> (\<exists>s1 ks s'. markKeyFailed (new_ApiKeyRotation (KeyArray [''k1'', ''k2''])) ''k1'' 1000 = Inr s1 \<and>
         getNextKeys s1 [1001, 30000, 60999] = Inr (ks, s') \<and>
         length ks = length [1001, 30000, 60999 :: int] \<and> Some ''k1'' \<notin> set ks)
   \<and> wf (new_ApiKeyRotation (KeyArray [''k1'']))
   \<and> distinct (keys (new_ApiKeyRotation (KeyArray [''k1''])))
   \<and> list_all (\<lambda>t. t - 1000 < COOLDOWN_MS) [1001]
   \<and> (\<exists>s1 s'. markKeyFailed (new_ApiKeyRotation (KeyArray [''k1''])) ''k1'' 1000 = Inr s1 \<and>
         getNextKeys s1 [1001] = Inr ([Some ''k1''], s') \<and>
         js_nth (keys s1) (currentIndex s1) = Some ''k1'' \<and>
         0 < length (keys s1) \<and>
         (\<exists>st. keyStatuses s1 0 = Some st \<and> skipped 1001 st))"
proof -
  let ?s = "new_ApiKeyRotation (KeyArray [''k1'', ''k2''])"
  have k: "keys ?s = [''k1'', ''k2'']" by (simp add: new_ApiKeyRotation_def)
  have 1: "wf ?s" by (rule wf_new)
  have 2: "distinct (keys ?s)" by (simp add: k)
  have 3: "(1000::int) \<noteq> 0" by simp
  have 4: "\<forall>t \<in> set [1001, 30000, 60999]. t - 1000 < COOLDOWN_MS" by (simp add: COOLDOWN_MS_def)
  have l4: "list_all (\<lambda>t. t - 1000 < COOLDOWN_MS) [1001, 30000, 60999]"
    by (simp add: COOLDOWN_MS_def)
  have 5: "1 < length (keys ?s)" by (simp add: k)
  have 6: "keys ?s ! 1 \<noteq> ''k1''" by (simp add: k)
  have 7: "keyStatuses ?s 1 = Some (initial_status 1)" by (simp add: keyStatuses_new k)
  have 8: "\<forall>t \<in> set [1001, 30000, 60999 :: int]. \<not> skipped t (initial_status 1)"
    by (simp add: unfailed_not_skipped hasFailedAt_def initial_status_def MAX_FAILURES_def)
  have l8: "list_all (\<lambda>t. \<not> skipped t (initial_status 1)) [1001, 30000, 60999]"
    using 8 by (simp add: list_all_iff)
  from cooldown_isolation[OF 1 2 3 4, of "''k1''"] obtain s1 ks s' where
    r: "markKeyFailed ?s ''k1'' 1000 = Inr s1" "getNextKeys s1 [1001, 30000, 60999] = Inr (ks, s')"
       "length ks = length [1001, 30000, 60999 :: int]"
    and c: "\<forall>j stj. j < length (keys ?s) \<and> keys ?s ! j \<noteq> ''k1'' \<and> keyStatuses ?s j = Some stj \<and>
                    (\<forall>t \<in> set [1001, 30000, 60999]. \<not> skipped t stj) \<longrightarrow> Some ''k1'' \<notin> set ks"
    by blast
  from c 5 6 7 8 have "Some ''k1'' \<notin> set ks" by blast
  with r have two: "\<exists>s1 ks s'. markKeyFailed ?s ''k1'' 1000 = Inr s1 \<and>
         getNextKeys s1 [1001, 30000, 60999] = Inr (ks, s') \<and>
         length ks = length [1001, 30000, 60999 :: int] \<and> Some ''k1'' \<notin> set ks" by blast
  let ?u = "new_ApiKeyRotation (KeyArray [''k1''])"
  have u1: "wf ?u" by (rule wf_new)
  have u2: "distinct (keys ?u)" by (simp add: new_ApiKeyRotation_def)
  have u4: "\<forall>t \<in> set [1001]. t - 1000 < COOLDOWN_MS" by (simp add: COOLDOWN_MS_def)
  have lu4: "list_all (\<lambda>t. t - 1000 < COOLDOWN_MS) [1001]" by (simp add: COOLDOWN_MS_def)
  have ev: "keys_returned (run_ops ?u [MarkKeyFailed ''k1'' 1000]) [1001] = Some [Some ''k1'']"
    by code_simp
  from cooldown_isolation[OF u1 u2 3 u4, of "''k1''"] obtain t1 ku t' where
    q: "markKeyFailed ?u ''k1'' 1000 = Inr t1" "getNextKeys t1 [1001] = Inr (ku, t')"
    and b: "\<forall>n < length [1001 :: int]. ku ! n = Some ''k1'' \<longrightarrow>
              (\<exists>ksn sn. getNextKeys t1 (take n [1001]) = Inr (ksn, sn) \<and>
                 js_nth (keys sn) (currentIndex sn) = Some ''k1'' \<and>
                 (\<forall>j < length (keys sn). \<exists>stj. keyStatuses sn j = Some stj \<and> skipped ([1001] ! n) stj))"
    by blast
  from ev q have ku: "ku = [Some ''k1'']" by (simp add: keys_returned_def apply_op_def)
  with b have resort: "js_nth (keys t1) (currentIndex t1) = Some ''k1'' \<and>
      (\<forall>j < length (keys t1). \<exists>stj. keyStatuses t1 j = Some stj \<and> skipped 1001 stj)" by simp
  then have pos: "0 < length (keys t1)" by (auto simp: js_nth_def split: if_splits)
  with resort have "\<exists>st. keyStatuses t1 0 = Some st \<and> skipped 1001 st" by blast
  with q ku resort pos have one: "\<exists>s1 s'. markKeyFailed ?u ''k1'' 1000 = Inr s1 \<and>
         getNextKeys s1 [1001] = Inr ([Some ''k1''], s') \<and>
         js_nth (keys s1) (currentIndex s1) = Some ''k1'' \<and>
         0 < length (keys s1) \<and>
         (\<exists>st. keyStatuses s1 0 = Some st \<and> skipped 1001 st)" by blast
  from 1 2 3 l4 6 7 l8 two u1 u2 lu4 one show ?thesis by (intro conjI)
qed

text \<open>
  C7 as stated fails: four \<^verbatim>\<open>markKeyFailed\<close> calls on the only key of a pool leave its failure
  count at 4, above \<open>MAX_FAILURES\<close>.
\<close>

theorem failureCount_counterexample:
  "failureCount_of (run_ops (new_ApiKeyRotation (KeyString ''k1''))
       [MarkKeyFailed ''k1'' 1000, MarkKeyFailed ''k1'' 2000, MarkKeyFailed ''k1'' 3000,
        MarkKeyFailed ''k1'' 4000]) 0 = Some 4
   \<and> \<not> (4 \<le> MAX_FAILURES)"
  by code_simp

text \<open>
  C7, amended. In every reachable pool each key has a status whose failure count is a
  non-negative integer, and an operation leaves it unchanged, or adds one to it (only
  \<^verbatim>\<open>markKeyFailed\<close>), or sets it to 0 (only \<^verbatim>\<open>resetKey\<close> on that slot, or \<^verbatim>\<open>getNextKey()\<close> when
  the key's cooldown has expired). Nothing bounds it by \<open>MAX_FAILURES\<close>.
\<close>

theorem failureCount_changes:
  assumes "reachable s" and "i < length (keys s)"
  shows "\<exists>st. keyStatuses s i = Some st \<and> 0 \<le> failureCount st \<and>
           (\<forall>op s'. apply_op s op = Inr s' \<longrightarrow>
              (\<exists>st'. keyStatuses s' i = Some st' \<and>
                 (failureCount st' = failureCount st
                  \<or> (failureCount st' = failureCount st + 1 \<and> (\<exists>key now. op = MarkKeyFailed key now))
                  \<or> (failureCount st' = 0 \<and>
                      (op = ResetKey i \<or>
                       (\<exists>now. op = GetNextKey now \<and> hasFailedAt st \<and> \<not> inCooldown now st))))))"
proof -
  from reachable_nonneg[OF assms] obtain st where
    st: "keyStatuses s i = Some st" "0 \<le> failureCount st" by blast
  from apply_op_failureCount[OF reachable_wf[OF assms(1)] _ st(1)] st show ?thesis by blast
qed

text \<open>A new pool of two keys; marking the first one failed makes its count 1.\<close>

theorem failureCount_changes_witness:
  "reachable (new_ApiKeyRotation (KeyArray [''k1'', ''k2'']))
   \<and> 0 < length (keys (new_ApiKeyRotation (KeyArray [''k1'', ''k2''])))
   \<and> (\<exists>st. keyStatuses (new_ApiKeyRotation (KeyArray [''k1'', ''k2''])) 0 = Some st \<and>
           0 \<le> failureCount st \<and>
           (\<exists>st'. failureCount_of (apply_op (new_ApiKeyRotation (KeyArray [''k1'', ''k2'']))
                      (MarkKeyFailed ''k1'' 1000)) 0 = Some (failureCount st + 1)))"
proof -
  let ?s = "new_ApiKeyRotation (KeyArray [''k1'', ''k2''])"
  have k: "keys ?s = [''k1'', ''k2'']" by (simp add: new_ApiKeyRotation_def)
  have 1: "reachable ?s" by (rule reachable.constructed)
  have 2: "0 < length (keys ?s)" by (simp add: k)
  have 3: "failureCount_of (apply_op ?s (MarkKeyFailed ''k1'' 1000)) 0 = Some 1"
    by (simp add: failureCount_of_def apply_op_def markKeyFailed_def k keyStatuses_new
        initial_status_def Let_def advance_def)
  from failureCount_changes[OF 1 2] obtain st where
    "keyStatuses ?s 0 = Some st" "0 \<le> failureCount st" by blast
  moreover from this(1) have "failureCount st = 0"
    by (auto simp: keyStatuses_new k initial_status_def)
  ultimately show ?thesis using 1 2 3 by auto
qed

section \<open>Claims about the retry loop\<close>

text \<open>
  C1 as stated fails in its first half: when every attempt is rate-limited, the Groq adapter
  makes three calls and then raises the error of the third call, not the failure
  \<^verbatim>\<open>Failed to generate response after maximum retries\<close> that follows the loop.
\<close>

theorem retry_exhausted_counterexample:
  "map attempt (calls (GroqService_streamMessage always_429 (\<lambda>n. 5000) sample_groq
       (sample_message User ''hello'' None) [sample_message User ''hello'' None] sample_config))
     = [0, 1, 2]
   \<and> result (GroqService_streamMessage always_429 (\<lambda>n. 5000) sample_groq
       (sample_message User ''hello'' None) [sample_message User ''hello'' None] sample_config)
     = Inl (JsError ''429 Too Many Requests'')
   \<and> JsError ''429 Too Many Requests'' \<noteq> JsError ''Failed to generate response after maximum retries''"
  by code_simp

text \<open>
  C1, amended. For each adapter: if its key pool is well-formed and every invocation of the
  underlying streaming call raises a rate-limit-classified error, \<^verbatim>\<open>streamMessage\<close> invokes the
  call exactly three times (attempts 0, 1, 2) and then raises an error carrying the message of
  the last rate-limit error, never the failure that follows the loop; if the first invocation
  raises an error that is not rate-limit-classified, \<^verbatim>\<open>streamMessage\<close> makes that one invocation
  and raises at once an error carrying its message (the adapter's own message when that one is
  empty).
\<close>

theorem retry_bound:
  "(wf (keyRotation svc) \<and>
      (\<forall>c. \<exists>raw err. groq c = Broken raw err \<and> isRateLimitError (errorMessage_of err)) \<longrightarrow>
      map attempt (calls (GroqService_streamMessage groq clock svc lastMessage history config)) = [0, 1, 2] \<and>
      (\<exists>raw err. groq (last (calls (GroqService_streamMessage groq clock svc lastMessage history config))) = Broken raw err \<and>
         result (GroqService_streamMessage groq clock svc lastMessage history config) = Inl (JsError (errorMessage_of err))) \<and>
      result (GroqService_streamMessage groq clock svc lastMessage history config) \<noteq> Inl (JsError ''Failed to generate response after maximum retries''))
   \<and> (\<forall>raw err.
      groq \<lparr>attempt = 0, credential = currentKey svc, request = GroqService_request lastMessage history config\<rparr> = Broken raw err \<and>
      \<not> isRateLimitError (errorMessage_of err) \<longrightarrow>
      calls (GroqService_streamMessage groq clock svc lastMessage history config) = [\<lparr>attempt = 0, credential = currentKey svc, request = GroqService_request lastMessage history config\<rparr>] \<and>
      result (GroqService_streamMessage groq clock svc lastMessage history config) = Inl (JsError (or_else (Some (errorMessage_of err)) ''Failed to generate response from Groq'')))
   \<and> (wf (keyRotation gsvc) \<and>
      (\<forall>c. \<exists>raw err. gemini c = Broken raw err \<and> isRateLimitError (errorMessage_of err)) \<longrightarrow>
      map attempt (calls (GeminiService_streamMessage d gemini clock gsvc lastMessage history config)) = [0, 1, 2] \<and>
      (\<exists>raw err. gemini (last (calls (GeminiService_streamMessage d gemini clock gsvc lastMessage history config))) = Broken raw err \<and>
         result (GeminiService_streamMessage d gemini clock gsvc lastMessage history config) = Inl (JsError (errorMessage_of err))) \<and>
      result (GeminiService_streamMessage d gemini clock gsvc lastMessage history config) \<noteq> Inl (JsError ''Failed to generate response after maximum retries''))
   \<and> (\<forall>raw err.
      gemini \<lparr>attempt = 0, credential = currentKey gsvc, request = the (snd (GeminiService_request d lastMessage history config gsvc))\<rparr> = Broken raw err \<and>
      \<not> isRateLimitError (errorMessage_of err) \<longrightarrow>
      calls (GeminiService_streamMessage d gemini clock gsvc lastMessage history config) = [\<lparr>attempt = 0, credential = currentKey gsvc, request = the (snd (GeminiService_request d lastMessage history config gsvc))\<rparr>] \<and>
      result (GeminiService_streamMessage d gemini clock gsvc lastMessage history config) = Inl (JsError (or_else (Some (errorMessage_of err)) ''Failed to generate response from Gemini'')))
   \<and> (wf (keyRotation svc) \<and>
      (\<forall>c. \<exists>raw err. openrouter c = Broken raw err \<and> isRateLimitError (errorMessage_of err)) \<longrightarrow>
      map attempt (calls (OpenRouterService_streamMessage openrouter clock svc lastMessage history config)) = [0, 1, 2] \<and>
      (\<exists>raw err. openrouter (last (calls (OpenRouterService_streamMessage openrouter clock svc lastMessage history config))) = Broken raw err \<and>
         result (OpenRouterService_streamMessage openrouter clock svc lastMessage history config) = Inl (JsError (errorMessage_of err))) \<and>
      result (OpenRouterService_streamMessage openrouter clock svc lastMessage history config) \<noteq> Inl (JsError ''Failed to generate response after maximum retries''))
   \<and> (\<forall>raw err.
      openrouter \<lparr>attempt = 0, credential = currentKey svc, request = OpenRouterService_request lastMessage history config\<rparr> = Broken raw err \<and>
      \<not> isRateLimitError (errorMessage_of err) \<longrightarrow>
      calls (OpenRouterService_streamMessage openrouter clock svc lastMessage history config) = [\<lparr>attempt = 0, credential = currentKey svc, request = OpenRouterService_request lastMessage history config\<rparr>] \<and>
      result (OpenRouterService_streamMessage openrouter clock svc lastMessage history config) = Inl (JsError (or_else (Some (errorMessage_of err)) ''Failed to generate response from OpenRouter'')))"
  (is "?groq_limited \<and> ?groq_other \<and> ?gemini_limited \<and> ?gemini_other \<and>
       ?openrouter_limited \<and> ?openrouter_other")
proof -
  have groq_a: ?groq_limited
    unfolding GroqService_streamMessage_def
    using retry_loop_all_rate_limited[where body = "completion_try groq (GroqService_request lastMessage history config)"
            and backend = groq and conv = delta_chunks and svc = svc, OF completion_try_shape]
    by blast
  have or_a: ?openrouter_limited
    unfolding OpenRouterService_streamMessage_def
    using retry_loop_all_rate_limited[where body = "completion_try openrouter (OpenRouterService_request lastMessage history config)"
            and backend = openrouter and conv = delta_chunks and svc = svc, OF completion_try_shape]
    by blast
  have gem_a: ?gemini_limited
    unfolding GeminiService_streamMessage_def
    using retry_loop_all_rate_limited[where body = "GeminiService_try d gemini lastMessage history config"
            and backend = gemini and conv = "map gemini_chunk" and svc = gsvc, OF GeminiService_try_shape]
    by blast
  have groq_b: ?groq_other
    by (auto simp: GroqService_streamMessage_def completion_try_def Let_def
        retry_loop_other_error[where svca = svc])
  have or_b: ?openrouter_other
    by (auto simp: OpenRouterService_streamMessage_def completion_try_def Let_def
        retry_loop_other_error[where svca = svc])
  have gem_b: ?gemini_other
    by (auto simp: GeminiService_streamMessage_def GeminiService_try_eq
        retry_loop_other_error[where svca = "initChat d gsvc config history"])
  from groq_a groq_b gem_a gem_b or_a or_b show ?thesis by (intro conjI)
qed

text \<open>Backends that always answer 429, then backends that always answer 401.\<close>

theorem retry_bound_witness:
  "wf (keyRotation sample_groq) \<and> wf (keyRotation sample_gemini)
   \<and> map attempt (calls (GroqService_streamMessage always_429 (\<lambda>n. 5000) sample_groq
        (sample_message User ''hello'' None) [sample_message User ''hello'' None] sample_config)) = [0, 1, 2]
   \<and> result (GroqService_streamMessage always_429 (\<lambda>n. 5000) sample_groq
        (sample_message User ''hello'' None) [sample_message User ''hello'' None] sample_config)
       = Inl (JsError ''429 Too Many Requests'')
   \<and> map attempt (calls (GeminiService_streamMessage ''persona'' always_429 (\<lambda>n. 5000) sample_gemini
        (sample_message User ''hello'' None) [sample_message User ''hello'' None] sample_config)) = [0, 1, 2]
   \<and> result (GeminiService_streamMessage ''persona'' always_429 (\<lambda>n. 5000) sample_gemini
        (sample_message User ''hello'' None) [sample_message User ''hello'' None] sample_config)
       = Inl (JsError ''429 Too Many Requests'')
   \<and> map attempt (calls (OpenRouterService_streamMessage always_429 (\<lambda>n. 5000) sample_groq
        (sample_message User ''hello'' None) [sample_message User ''hello'' None] sample_config)) = [0, 1, 2]
   \<and> map attempt (calls (GroqService_streamMessage always_401 (\<lambda>n. 5000) sample_groq
        (sample_message User ''hello'' None) [sample_message User ''hello'' None] sample_config)) = [0]
   \<and> result (GroqService_streamMessage always_401 (\<lambda>n. 5000) sample_groq
        (sample_message User ''hello'' None) [sample_message User ''hello'' None] sample_config)
       = Inl (JsError ''401 Unauthorized'')
   \<and> map attempt (calls (GeminiService_streamMessage ''persona'' always_401 (\<lambda>n. 5000) sample_gemini
        (sample_message User ''hello'' None) [sample_message User ''hello'' None] sample_config)) = [0]
   \<and> result (GeminiService_streamMessage ''persona'' always_401 (\<lambda>n. 5000) sample_gemini
        (sample_message User ''hello'' None) [sample_message User ''hello'' None] sample_config)
       = Inl (JsError ''401 Unauthorized'')
   \<and> result (OpenRouterService_streamMessage always_401 (\<lambda>n. 5000) sample_groq
        (sample_message User ''hello'' None) [sample_message User ''hello'' None] sample_config)
       = Inl (JsError ''401 Unauthorized'')"
proof -
  let ?m = "sample_message User ''hello'' None"
  let ?e = "Thrown (Some ''401 Unauthorized'') ''Error: 401 Unauthorized''"
  note a = retry_bound[where svc = sample_groq and groq = always_429 and clock = "\<lambda>n. 5000"
             and lastMessage = ?m and history = "[?m]" and config = sample_config
             and gsvc = sample_gemini and gemini = always_429 and d = "''persona''"
             and openrouter = always_429]
  note b = retry_bound[where svc = sample_groq and groq = always_401 and clock = "\<lambda>n. 5000"
             and lastMessage = ?m and history = "[?m]" and config = sample_config
             and gsvc = sample_gemini and gemini = always_401 and d = "''persona''"
             and openrouter = always_401]
  have hq: "wf (keyRotation sample_groq) \<and>
      (\<forall>c::CompletionRequest call. \<exists>(raw::string option list) err. always_429 c = Broken raw err \<and>
         isRateLimitError (errorMessage_of err))"
    using wf_sample_groq always_429_rate_limited by blast
  have hg: "wf (keyRotation sample_gemini) \<and>
      (\<forall>c::GeminiRequest call. \<exists>(raw::GenerateContentResponse list) err. always_429 c = Broken raw err \<and>
         isRateLimitError (errorMessage_of err))"
    using wf_sample_gemini always_429_rate_limited by blast
  have he: "errorMessage_of ?e = ''401 Unauthorized''"
    by (simp add: errorMessage_of_def or_else_def)
  have ho: "or_else (Some ''401 Unauthorized'') x = ''401 Unauthorized''" for x
    by (simp add: or_else_def)
  from a[THEN conjunct1, THEN mp, OF hq]
  have A1: "map attempt (calls (GroqService_streamMessage always_429 (\<lambda>n. 5000) sample_groq ?m [?m] sample_config)) = [0, 1, 2]"
    and A2: "result (GroqService_streamMessage always_429 (\<lambda>n. 5000) sample_groq ?m [?m] sample_config)
       = Inl (JsError ''429 Too Many Requests'')"
    by (blast, blast intro: always_429_result)
  from a[THEN conjunct2, THEN conjunct2, THEN conjunct1, THEN mp, OF hg]
  have A3: "map attempt (calls (GeminiService_streamMessage ''persona'' always_429 (\<lambda>n. 5000) sample_gemini ?m [?m] sample_config)) = [0, 1, 2]"
    and A4: "result (GeminiService_streamMessage ''persona'' always_429 (\<lambda>n. 5000) sample_gemini ?m [?m] sample_config)
       = Inl (JsError ''429 Too Many Requests'')"
    by (blast, blast intro: always_429_result)
  from a[THEN conjunct2, THEN conjunct2, THEN conjunct2, THEN conjunct2, THEN conjunct1, THEN mp, OF hq]
  have A5: "map attempt (calls (OpenRouterService_streamMessage always_429 (\<lambda>n. 5000) sample_groq ?m [?m] sample_config)) = [0, 1, 2]"
    by blast
  from b[THEN conjunct2, THEN conjunct1, THEN spec, THEN spec, THEN mp, OF always_401_other]
  have B1: "map attempt (calls (GroqService_streamMessage always_401 (\<lambda>n. 5000) sample_groq ?m [?m] sample_config)) = [0]"
    and B2: "result (GroqService_streamMessage always_401 (\<lambda>n. 5000) sample_groq ?m [?m] sample_config)
       = Inl (JsError ''401 Unauthorized'')"
    by (simp_all add: he ho)
  from b[THEN conjunct2, THEN conjunct2, THEN conjunct2, THEN conjunct1, THEN spec, THEN spec, THEN mp,
         OF always_401_other]
  have B3: "map attempt (calls (GeminiService_streamMessage ''persona'' always_401 (\<lambda>n. 5000) sample_gemini ?m [?m] sample_config)) = [0]"
    and B4: "result (GeminiService_streamMessage ''persona'' always_401 (\<lambda>n. 5000) sample_gemini ?m [?m] sample_config)
       = Inl (JsError ''401 Unauthorized'')"
    by (simp_all add: he ho)
  from b[THEN conjunct2, THEN conjunct2, THEN conjunct2, THEN conjunct2, THEN conjunct2, THEN spec, THEN spec,
         THEN mp, OF always_401_other]
  have B5: "result (OpenRouterService_streamMessage always_401 (\<lambda>n. 5000) sample_groq ?m [?m] sample_config)
       = Inl (JsError ''401 Unauthorized'')"
    by (simp add: he ho)
  from A1 A2 A3 A4 A5 B1 B2 B3 B4 B5 wf_sample_groq wf_sample_gemini show ?thesis by (intro conjI)
qed

end
